theory Spec2Isabelle
  imports Complex_Main
begin

text \<open>
  A shallow embedding of the request orchestration of the AI Fashion Studio front end: the
  response validation of the Generation Gateway (\<open>services/geminiService\<close>), the resizing
  done by Upload Intake, and the handlers \<open>handleGenerate\<close> and \<open>handleEdit\<close> of \<open>App\<close>
  with the state they write.  The external service and the browser are not modelled: what
  they return enters as a parameter.
\<close>

section \<open>JavaScript values\<close>

text \<open>
  An optional string property is a \<open>string option\<close>: \<open>None\<close> is \<open>undefined\<close>.  A
  condition such as \<open>if (x.blockReason)\<close> holds for a present, non-empty string only.
  A template literal prints \<open>undefined\<close> for an absent value.
\<close>

definition truthy :: "string option \<Rightarrow> bool" where
  "truthy s = (case s of None \<Rightarrow> False | Some t \<Rightarrow> t \<noteq> [])"

definition interpolate :: "string option \<Rightarrow> string" where
  "interpolate s = (case s of None \<Rightarrow> ''undefined'' | Some t \<Rightarrow> t)"

text \<open>
  \<open>newImages[i] = v\<close> on a copy of an array: inside the array it replaces one element,
  beyond its end JavaScript extends the array with holes (\<open>None\<close>) up to index \<open>i\<close>.
\<close>

definition js_set :: "'a option list \<Rightarrow> nat \<Rightarrow> 'a option \<Rightarrow> 'a option list" where
  "js_set xs i v =
     (if i < length xs then xs[i := v]
      else xs @ replicate (i - length xs) None @ [v])"

section \<open>Generation Gateway (services/geminiService)\<close>

subsection \<open>Responses of the external service\<close>

record safety_rating =
  category :: "string option"
  probability :: "string option"

record prompt_feedback =
  blockReason :: "string option"
  feedback_safetyRatings :: "safety_rating list option"

record blob =
  blob_mimeType :: "string option"
  blob_data :: "string option"

record part =
  inlineData :: "blob option"
  part_text :: "string option"

record content =
  parts :: "part list option"

record candidate =
  finishReason :: "string option"
  candidate_safetyRatings :: "safety_rating list option"
  candidate_content :: "content option"

record GenerateContentResponse =
  promptFeedback :: "prompt_feedback option"
  candidates :: "candidate list option"

record sdk_image =
  imageBytes :: "string option"

record generated_image =
  gen_image :: "sdk_image option"

text \<open>The response of \<open>ai.models.generateImages\<close>; the function reads nothing else of it.\<close>

record GenerateImagesResponse =
  response_generatedImages :: "generated_image list option"

text \<open>What a call of the SDK does: it throws an \<open>Error\<close> with a message, throws a value
  that is no \<open>Error\<close>, or returns a response.\<close>

datatype 'r api_outcome = ThrowsError string | ThrowsOther | Returns 'r

subsection \<open>Errors\<close>

text \<open>
  The service functions throw \<open>Error\<close> objects that differ in their message only (the
  messages are Vietnamese sentences).  A \<open>message\<close> has one constructor for each message
  template of the source, with the values the template interpolates.
\<close>

datatype gateway_op = TextToImage | TryOn | Edit

datatype message =
    Msg_input_missing                        \<comment> \<open>handleGenerate: neither image nor description\<close>
  | Msg_blocked string "string option"       \<comment> \<open>block reason, category of the harmful rating\<close>
  | Msg_no_candidate                         \<comment> \<open>the response has no first candidate\<close>
  | Msg_safety "string option"               \<comment> \<open>finish reason SAFETY, category when found\<close>
  | Msg_max_tokens
  | Msg_recitation
  | Msg_no_image gateway_op                  \<comment> \<open>finish reason NO_IMAGE, worded per function\<close>
  | Msg_incomplete string                    \<comment> \<open>any other finish reason, interpolated\<close>
  | Msg_no_content                           \<comment> \<open>no content, no parts, or an empty part list\<close>
  | Msg_text_instead string                  \<comment> \<open>a text part instead of an image\<close>
  | Msg_no_image_data                        \<comment> \<open>neither image nor text in the parts\<close>
  | Msg_no_generated_image                   \<comment> \<open>generateImages returned no first image\<close>
  | Msg_no_image_bytes                       \<comment> \<open>the first generated image has no bytes\<close>
  | Msg_api string                           \<comment> \<open>an Error thrown by the SDK, rethrown as it is\<close>
  | Msg_unknown gateway_op                   \<comment> \<open>fallback for a thrown value that is no Error\<close>

text \<open>The error taxonomy of the specification, and the kind of each message.\<close>

datatype error_kind =
    ValidationError
  | ContentBlocked string "string option"
  | SafetyBlocked "string option"
  | TruncatedByLength
  | RecitationBlocked
  | NoImageProduced
  | IncompleteGeneration string
  | UnexpectedTextResponse string
  | EmptyResult
  | ApiFailure string
  | UnknownFailure

fun kind_of :: "message \<Rightarrow> error_kind" where
  "kind_of Msg_input_missing = ValidationError"
| "kind_of (Msg_blocked reason cat) = ContentBlocked reason cat"
| "kind_of Msg_no_candidate = EmptyResult"
| "kind_of (Msg_safety cat) = SafetyBlocked cat"
| "kind_of Msg_max_tokens = TruncatedByLength"
| "kind_of Msg_recitation = RecitationBlocked"
| "kind_of (Msg_no_image opn) = NoImageProduced"
| "kind_of (Msg_incomplete reason) = IncompleteGeneration reason"
| "kind_of Msg_no_content = EmptyResult"
| "kind_of (Msg_text_instead t) = UnexpectedTextResponse t"
| "kind_of Msg_no_image_data = EmptyResult"
| "kind_of Msg_no_generated_image = EmptyResult"
| "kind_of Msg_no_image_bytes = EmptyResult"
| "kind_of (Msg_api m) = ApiFailure m"
| "kind_of (Msg_unknown opn) = UnknownFailure"

subsection \<open>Validation of a generateContent response\<close>

text \<open>
  Lines 263-318 (\<open>generateTryOnImage\<close>) and 383-437 (\<open>editImage\<close>) of the service file
  are the same statements; they differ in the message thrown for \<open>NO_IMAGE\<close> only, so one
  definition with the function as parameter embeds both.
\<close>

definition harmful :: "safety_rating \<Rightarrow> bool" where
  "harmful r = (probability r \<noteq> Some ''NEGLIGIBLE'' \<and> probability r \<noteq> Some ''LOW'')"

definition find_harmful :: "safety_rating list option \<Rightarrow> string option" where
  "find_harmful rs =
     (case rs of None \<Rightarrow> None
      | Some l \<Rightarrow> map_option (\<lambda>r. interpolate (category r)) (find harmful l))"

definition block_check :: "GenerateContentResponse \<Rightarrow> message option" where
  "block_check response =
     (case promptFeedback response of
        None \<Rightarrow> None
      | Some pf \<Rightarrow>
          (case blockReason pf of
             None \<Rightarrow> None
           | Some reason \<Rightarrow>
               if reason = [] then None
               else Some (Msg_blocked reason (find_harmful (feedback_safetyRatings pf)))))"

definition first_candidate :: "GenerateContentResponse \<Rightarrow> candidate option" where
  "first_candidate response =
     (case candidates response of
        None \<Rightarrow> None
      | Some cs \<Rightarrow> (case cs of [] \<Rightarrow> None | c # _ \<Rightarrow> Some c))"

definition validFinishReasons :: "string list" where
  "validFinishReasons = [''STOP'', ''FINISH_REASON_UNSPECIFIED'']"

definition finish_switch :: "gateway_op \<Rightarrow> candidate \<Rightarrow> string \<Rightarrow> message" where
  "finish_switch opn c reason =
     (if reason = ''SAFETY'' then Msg_safety (find_harmful (candidate_safetyRatings c))
      else if reason = ''MAX_TOKENS'' then Msg_max_tokens
      else if reason = ''RECITATION'' then Msg_recitation
      else if reason = ''NO_IMAGE'' then Msg_no_image opn
      else Msg_incomplete reason)"

definition finish_check :: "gateway_op \<Rightarrow> candidate \<Rightarrow> message option" where
  "finish_check opn c =
     (case finishReason c of
        None \<Rightarrow> None
      | Some reason \<Rightarrow>
          if reason \<noteq> [] \<and> reason \<notin> set validFinishReasons
          then Some (finish_switch opn c reason) else None)"

definition content_parts :: "candidate \<Rightarrow> part list" where
  "content_parts c =
     (case candidate_content c of
        None \<Rightarrow> []
      | Some ct \<Rightarrow> (case parts ct of None \<Rightarrow> [] | Some ps \<Rightarrow> ps))"

definition data_url :: "blob \<Rightarrow> string" where
  "data_url b =
     ''data:'' @ interpolate (blob_mimeType b) @ '';base64,'' @ interpolate (blob_data b)"

text \<open>The two \<open>for\<close> loops over the parts: the first returns at the first part with inline
  data, the second throws at the first part with a non-empty text.\<close>

fun image_loop :: "part list \<Rightarrow> string option" where
  "image_loop [] = None"
| "image_loop (p # ps) =
     (case inlineData p of Some b \<Rightarrow> Some (data_url b) | None \<Rightarrow> image_loop ps)"

fun text_loop :: "part list \<Rightarrow> string option" where
  "text_loop [] = None"
| "text_loop (p # ps) =
     (case part_text p of
        None \<Rightarrow> text_loop ps
      | Some t \<Rightarrow> if t = [] then text_loop ps else Some t)"

definition scan_parts :: "candidate \<Rightarrow> message + string" where
  "scan_parts c =
     (if content_parts c = [] then Inl Msg_no_content
      else case image_loop (content_parts c) of
             Some url \<Rightarrow> Inr url
           | None \<Rightarrow>
               (case text_loop (content_parts c) of
                  Some t \<Rightarrow> Inl (Msg_text_instead t)
                | None \<Rightarrow> Inl Msg_no_image_data))"

definition validate_response :: "gateway_op \<Rightarrow> GenerateContentResponse \<Rightarrow> message + string" where
  "validate_response opn response =
     (case block_check response of
        Some m \<Rightarrow> Inl m
      | None \<Rightarrow>
          (case first_candidate response of
             None \<Rightarrow> Inl Msg_no_candidate
           | Some c \<Rightarrow>
               (case finish_check opn c of
                  Some m \<Rightarrow> Inl m
                | None \<Rightarrow> scan_parts c)))"

text \<open>The \<open>catch\<close> block of each function rethrows an \<open>Error\<close> (one of the above, or one
  thrown by the SDK) and replaces any other thrown value by a fixed message.\<close>

definition rethrow :: "gateway_op \<Rightarrow> ('r \<Rightarrow> message + string) \<Rightarrow> 'r api_outcome \<Rightarrow> message + string" where
  "rethrow opn validate outcome =
     (case outcome of
        ThrowsError m \<Rightarrow> Inl (Msg_api m)
      | ThrowsOther \<Rightarrow> Inl (Msg_unknown opn)
      | Returns response \<Rightarrow> validate response)"

definition generateTryOnImage :: "GenerateContentResponse api_outcome \<Rightarrow> message + string" where
  "generateTryOnImage = rethrow TryOn (validate_response TryOn)"

definition editImage :: "GenerateContentResponse api_outcome \<Rightarrow> message + string" where
  "editImage = rethrow Edit (validate_response Edit)"

subsection \<open>Validation of a generateImages response\<close>

definition validate_images :: "GenerateImagesResponse \<Rightarrow> message + string" where
  "validate_images response =
     (case response_generatedImages response of
        None \<Rightarrow> Inl Msg_no_generated_image
      | Some gs \<Rightarrow>
          (case gs of
             [] \<Rightarrow> Inl Msg_no_generated_image
           | g # _ \<Rightarrow>
               (case gen_image g of
                  None \<Rightarrow> Inl Msg_no_image_bytes
                | Some im \<Rightarrow>
                    (case imageBytes im of
                       None \<Rightarrow> Inl Msg_no_image_bytes
                     | Some bytes \<Rightarrow>
                         if bytes = [] then Inl Msg_no_image_bytes
                         else Inr (''data:image/jpeg;base64,'' @ bytes)))))"

definition generateImageFromText :: "GenerateImagesResponse api_outcome \<Rightarrow> message + string" where
  "generateImageFromText = rethrow TextToImage validate_images"

subsection \<open>The validation order as the specification words it\<close>

text \<open>
  Section 4.2 of the specification, steps a to d, written down from its words and with no
  function of the model above: a block reason first, then the missing candidate, then the
  finish reason, then the parts, the first image before any text.  The block reason is
  explicit when it is present and not empty; the category is present when a safety rating
  has a probability other than \<open>NEGLIGIBLE\<close> and \<open>LOW\<close>, and is the category of the first
  such rating; only a candidate that has a finish reason is tested against the accepted
  set; a text counts when it is not empty.
\<close>

definition spec_category :: "safety_rating list option \<Rightarrow> string option" where
  "spec_category rs =
     (case filter (\<lambda>r. probability r \<notin> {Some ''NEGLIGIBLE'', Some ''LOW''})
             (case rs of None \<Rightarrow> [] | Some l \<Rightarrow> l) of
        [] \<Rightarrow> None
      | r # _ \<Rightarrow> Some (interpolate (category r)))"

definition spec_block_reason :: "GenerateContentResponse \<Rightarrow> (string \<times> string option) option" where
  "spec_block_reason response =
     Option.bind (promptFeedback response)
       (\<lambda>pf. if truthy (blockReason pf)
             then Some (interpolate (blockReason pf), spec_category (feedback_safetyRatings pf))
             else None)"

definition spec_candidate :: "GenerateContentResponse \<Rightarrow> candidate option" where
  "spec_candidate response =
     (case candidates response of Some (c # _) \<Rightarrow> Some c | _ \<Rightarrow> None)"

definition spec_parts :: "candidate \<Rightarrow> part list" where
  "spec_parts c = (case Option.bind (candidate_content c) parts of None \<Rightarrow> [] | Some ps \<Rightarrow> ps)"

definition spec_image :: "blob \<Rightarrow> string" where
  "spec_image b =
     concat [''data:'', interpolate (blob_mimeType b), '';base64,'', interpolate (blob_data b)]"

definition spec_finish_kind :: "candidate \<Rightarrow> string \<Rightarrow> error_kind" where
  "spec_finish_kind c reason =
     (case map_of
             [(''SAFETY'', SafetyBlocked (spec_category (candidate_safetyRatings c))),
              (''MAX_TOKENS'', TruncatedByLength),
              (''RECITATION'', RecitationBlocked),
              (''NO_IMAGE'', NoImageProduced)] reason of
        Some k \<Rightarrow> k
      | None \<Rightarrow> IncompleteGeneration reason)"

definition spec_rejected_finish :: "candidate \<Rightarrow> bool" where
  "spec_rejected_finish c =
     (truthy (finishReason c) \<and>
      finishReason c \<noteq> Some ''STOP'' \<and> finishReason c \<noteq> Some ''FINISH_REASON_UNSPECIFIED'')"

definition spec_scan :: "part list \<Rightarrow> error_kind + string" where
  "spec_scan ps =
     (case List.map_filter inlineData ps of
        b # _ \<Rightarrow> Inr (spec_image b)
      | [] \<Rightarrow>
          (case filter (\<lambda>t. t \<noteq> []) (List.map_filter part_text ps) of
             t # _ \<Rightarrow> Inl (UnexpectedTextResponse t)
           | [] \<Rightarrow> Inl EmptyResult))"

definition spec_classify :: "GenerateContentResponse \<Rightarrow> error_kind + string" where
  "spec_classify response =
     (case spec_block_reason response of
        Some (reason, cat) \<Rightarrow> Inl (ContentBlocked reason cat)
      | None \<Rightarrow>
          (case spec_candidate response of
             None \<Rightarrow> Inl EmptyResult
           | Some c \<Rightarrow>
               if spec_rejected_finish c
               then Inl (spec_finish_kind c (interpolate (finishReason c)))
               else spec_scan (spec_parts c)))"

text \<open>
  The response of the image model in the same terms: it has no block reason; each generated
  image is a candidate without finish reason and without text, whose only part is its
  image (sent back as \<open>image/jpeg\<close>) when it has bytes.
\<close>

definition image_candidate :: "generated_image \<Rightarrow> candidate" where
  "image_candidate g =
     \<lparr>finishReason = None, candidate_safetyRatings = None,
      candidate_content = Some \<lparr>parts = Some
        (case Option.bind (gen_image g) imageBytes of
           None \<Rightarrow> []
         | Some bytes \<Rightarrow>
             if bytes = [] then []
             else [\<lparr>inlineData = Some \<lparr>blob_mimeType = Some ''image/jpeg'', blob_data = Some bytes\<rparr>,
                    part_text = None\<rparr>])\<rparr>\<rparr>"

definition as_content_response :: "GenerateImagesResponse \<Rightarrow> GenerateContentResponse" where
  "as_content_response response =
     \<lparr>promptFeedback = None,
      candidates = map_option (map image_candidate) (response_generatedImages response)\<rparr>"

section \<open>Upload Intake (resizeImageBlob)\<close>

text \<open>
  \<open>Math.round\<close> rounds to the nearest integer, a half upwards.  The quotient is taken over
  the rationals: for image sides (below \<open>2^31\<close>) the double-precision quotient
  \<open>(height * maxSize) / width\<close> lies on the same side of every half-integer as the exact
  one, so both round to the same integer.
\<close>

definition js_round :: "rat \<Rightarrow> int" where
  "js_round x = \<lfloor>x + 1 / 2\<rfloor>"

definition resize_dimensions :: "nat \<Rightarrow> nat \<Rightarrow> nat \<Rightarrow> nat \<times> nat" where
  "resize_dimensions width height maxSize =
     (if width > height then
        (if width > maxSize
         then (maxSize, nat (js_round (of_nat (height * maxSize) / of_nat width)))
         else (width, height))
      else
        (if height > maxSize
         then (nat (js_round (of_nat (width * maxSize) / of_nat height)), maxSize)
         else (width, height)))"

text \<open>What the browser does around the computation: the image loads or not, the canvas
  gives a 2d context or not, \<open>toBlob\<close> hands a blob to its callback or \<open>null\<close>.\<close>

record browser =
  image_loads :: bool
  context_available :: bool
  encoder_returns_blob :: bool

datatype intake_error = ImageLoadFailed | NoCanvasContext | ToBlobFailed

text \<open>The arguments of \<open>canvas.toBlob\<close>: the canvas size, the type, the quality.\<close>

record encoded_image =
  encoded_width :: nat
  encoded_height :: nat
  encoded_type :: string
  encoded_quality :: rat

definition resizeImageBlob :: "browser \<Rightarrow> nat \<Rightarrow> nat \<Rightarrow> nat \<Rightarrow> intake_error + encoded_image" where
  "resizeImageBlob env width height maxSize =
     (if \<not> image_loads env then Inl ImageLoadFailed
      else if \<not> context_available env then Inl NoCanvasContext
      else if \<not> encoder_returns_blob env then Inl ToBlobFailed
      else Inr \<lparr>encoded_width = fst (resize_dimensions width height maxSize),
                encoded_height = snd (resize_dimensions width height maxSize),
                encoded_type = ''image/jpeg'',
                encoded_quality = 9 / 10\<rparr>)"

text \<open>\<open>fileToBase64\<close> (line 112) and \<open>imageUrlToBase64\<close> (line 144) both resize with the
  literal 1024.\<close>

definition upload_resize :: "browser \<Rightarrow> nat \<Rightarrow> nat \<Rightarrow> intake_error + encoded_image" where
  "upload_resize env width height = resizeImageBlob env width height 1024"

section \<open>Lookbook Orchestrator (App)\<close>

subsection \<open>State\<close>

record uploaded =
  base64 :: string
  mimeType :: string

text \<open>
  \<open>type ImageState = string | 'loading' | 'error' | null\<close>: a slot is a string or nothing.
  The strings \<open>loading\<close> and \<open>error\<close> mark a slot that waits or has failed; any other
  string is shown as an image.
\<close>

type_synonym ImageState = "string option"

definition slot_loading :: "ImageState \<Rightarrow> bool" where
  "slot_loading s = (s = Some ''loading'')"

definition slot_failed :: "ImageState \<Rightarrow> bool" where
  "slot_failed s = (s = Some ''error'')"

definition slot_ready :: "ImageState \<Rightarrow> bool" where
  "slot_ready s = (case s of None \<Rightarrow> False | Some img \<Rightarrow> img \<noteq> ''loading'' \<and> img \<noteq> ''error'')"

text \<open>
  A call of the gateway with its arguments.  An edit call is recorded with the data URL it
  edits; the source passes the two pieces it cuts out of that URL (\<open>split(',')[1]\<close> and
  the match of \<open>data:(.*);base64,\<close>).
\<close>

datatype gateway_call =
    TextCall string string
  | TryOnCall "uploaded list" string
  | EditCall string string "uploaded option"

datatype reply =
    ImagesReply "GenerateImagesResponse api_outcome"
  | ContentReply "GenerateContentResponse api_outcome"

text \<open>
  Where \<open>handleGenerate\<close> is suspended, if it is: at \<open>await generateBaseImage()\<close> (with the
  base call it issued and the \<open>isLookbookMode\<close> its closure holds) or at \<open>await
  Promise.all\<close> (with the variants not yet settled).
\<close>

datatype phase =
    Idle
  | AwaitBase gateway_call bool
  | AwaitVariants "nat list"

text \<open>
  The \<open>useState\<close> cells of \<open>App\<close> that the handlers read or write (\<open>isLoading\<close> is the
  specification's \<open>isGenerating\<close>), and three fields that are not in the source: \<open>calls\<close>,
  the gateway calls issued so far, oldest first, \<open>pending\<close>, the suspended run of
  \<open>handleGenerate\<close>, and \<open>editsPending\<close>, the number of calls of \<open>handleEdit\<close> suspended
  at \<open>await editImage\<close>.
\<close>

record app_state =
  originalImages :: "uploaded option list"
  modelDescription :: string
  photoStyle :: string
  aspectRatio :: string
  generatedImages :: "ImageState list"
  isLoading :: bool
  isEditing :: bool
  editPrompt :: string
  error :: "message option"
  history :: "string list"
  faceSourceIndex :: "nat option"
  isLookbookMode :: bool
  calls :: "gateway_call list"
  pending :: phase
  editsPending :: nat

text \<open>String constants of the source; the Vietnamese ones are written without their
  diacritics.\<close>

definition MAX_IMAGES :: nat where
  "MAX_IMAGES = 10"

definition INITIAL_MODEL_DESCRIPTION :: string where
  "INITIAL_MODEL_DESCRIPTION = ''Nguoi mau nu cao 1m65, toc dai, mac ao tu anh 1''"

definition INITIAL_PHOTO_STYLE :: string where
  "INITIAL_PHOTO_STYLE = ''Chup studio''"

definition INITIAL_ASPECT_RATIO :: string where
  "INITIAL_ASPECT_RATIO = ''3:4''"

definition variationPrompt :: string where
  "variationPrompt = ''Giu nguyen nguoi mau, trang phuc va phong cach tu anh goc. Chi thay doi tu the hoac goc chup mot chut de tao su da dang. Ket qua phai la mot buc anh duy nhat.''"

definition uploadedImages :: "app_state \<Rightarrow> uploaded list" where
  "uploadedImages st = List.map_filter id (originalImages st)"

definition hasImages :: "app_state \<Rightarrow> bool" where
  "hasImages st = (uploadedImages st \<noteq> [])"

definition imageToEdit :: "app_state \<Rightarrow> string option" where
  "imageToEdit st = (case generatedImages st of [] \<Rightarrow> None | s # _ \<Rightarrow> s)"

text \<open>The effect on \<open>[hasImages, modelDescription]\<close>: it empties the initial description
  when no image is left and restores it when an image meets an empty description.\<close>

definition sync_description :: "app_state \<Rightarrow> app_state" where
  "sync_description st =
     (if \<not> hasImages st \<and> modelDescription st = INITIAL_MODEL_DESCRIPTION
      then st\<lparr>modelDescription := []\<rparr>
      else if hasImages st \<and> modelDescription st = []
      then st\<lparr>modelDescription := INITIAL_MODEL_DESCRIPTION\<rparr>
      else st)"

definition mount_state :: app_state where
  "mount_state = sync_description
     \<lparr>originalImages = replicate MAX_IMAGES None,
      modelDescription = INITIAL_MODEL_DESCRIPTION,
      photoStyle = INITIAL_PHOTO_STYLE,
      aspectRatio = INITIAL_ASPECT_RATIO,
      generatedImages = [],
      isLoading = False,
      isEditing = False,
      editPrompt = [],
      error = None,
      history = [],
      faceSourceIndex = None,
      isLookbookMode = False,
      calls = [],
      pending = Idle,
      editsPending = 0\<rparr>"

subsection \<open>What the user does between two handlers\<close>

datatype user_action =
    SetModelDescription string
  | SetPhotoStyle string
  | SetAspectRatio string
  | UploadImage nat uploaded
  | DeleteImage nat
  | SetFaceSource nat
  | SetLookbookMode bool
  | SetEditPrompt string
  | Reset
  | RestoreFromHistory nat

fun user_update :: "user_action \<Rightarrow> app_state \<Rightarrow> app_state option" where
  "user_update (SetModelDescription d) st = Some (st\<lparr>modelDescription := d\<rparr>)"
| "user_update (SetPhotoStyle p) st = Some (st\<lparr>photoStyle := p\<rparr>)"
| "user_update (SetAspectRatio a) st = Some (st\<lparr>aspectRatio := a\<rparr>)"
| "user_update (UploadImage i img) st =
     Some (st\<lparr>originalImages := js_set (originalImages st) i (Some img)\<rparr>)"
| "user_update (DeleteImage i) st =
     Some (st\<lparr>originalImages := js_set (originalImages st) i None,
              faceSourceIndex := (if faceSourceIndex st = Some i then None else faceSourceIndex st)\<rparr>)"
| "user_update (SetFaceSource i) st =
     Some (st\<lparr>faceSourceIndex := (if faceSourceIndex st = Some i then None else Some i)\<rparr>)"
| "user_update (SetLookbookMode b) st = Some (st\<lparr>isLookbookMode := b\<rparr>)"
| "user_update (SetEditPrompt p) st = Some (st\<lparr>editPrompt := p\<rparr>)"
| "user_update Reset st =
     Some (st\<lparr>originalImages := replicate MAX_IMAGES None,
              modelDescription := [],
              photoStyle := INITIAL_PHOTO_STYLE,
              aspectRatio := INITIAL_ASPECT_RATIO,
              generatedImages := [],
              error := None,
              faceSourceIndex := None\<rparr>)"
| "user_update (RestoreFromHistory k) st =
     (if k < length (history st)
      then Some (st\<lparr>generatedImages := [Some (history st ! k)], isLookbookMode := False\<rparr>)
      else None)"

subsection \<open>handleGenerate\<close>

definition fullPrompt :: "app_state \<Rightarrow> string" where
  "fullPrompt st = modelDescription st @ ''. Phong cach: '' @ photoStyle st @ ''.''"

definition generateBaseImage_call :: "app_state \<Rightarrow> gateway_call" where
  "generateBaseImage_call st =
     (if length (uploadedImages st) > 0 then TryOnCall (uploadedImages st) (fullPrompt st)
      else TextCall (fullPrompt st) (aspectRatio st))"

fun generateBaseImage :: "reply \<Rightarrow> message + string" where
  "generateBaseImage (ImagesReply outcome) = generateImageFromText outcome"
| "generateBaseImage (ContentReply outcome) = generateTryOnImage outcome"

text \<open>The reply that can settle a call: \<open>generateImages\<close> answers the text call,
  \<open>generateContent\<close> the other two.\<close>

fun reply_for :: "gateway_call \<Rightarrow> reply \<Rightarrow> bool" where
  "reply_for (TextCall _ _) (ImagesReply _) = True"
| "reply_for (TryOnCall _ _) (ContentReply _) = True"
| "reply_for (EditCall _ _ _) (ContentReply _) = True"
| "reply_for _ _ = False"

text \<open>Lines 293-304, up to the first \<open>await\<close>.\<close>

definition handleGenerate_start :: "app_state \<Rightarrow> app_state" where
  "handleGenerate_start st =
     (if length (uploadedImages st) = 0 \<and> modelDescription st = []
      then st\<lparr>error := Some Msg_input_missing\<rparr>
      else st\<lparr>error := None,
              isLoading := True,
              generatedImages :=
                (if isLookbookMode st then replicate 4 (Some ''loading'') else [Some ''loading'']),
              calls := calls st @ [generateBaseImage_call st],
              pending := AwaitBase (generateBaseImage_call st) (isLookbookMode st)\<rparr>)"

definition handleGenerate_finally :: "app_state \<Rightarrow> app_state" where
  "handleGenerate_finally st = st\<lparr>isLoading := False, pending := Idle\<rparr>"

text \<open>Lines 305-336 and the \<open>catch\<close> block: the base call has settled.\<close>

definition handleGenerate_base :: "bool \<Rightarrow> reply \<Rightarrow> app_state \<Rightarrow> app_state" where
  "handleGenerate_base lookbook rp st =
     (case generateBaseImage rp of
        Inr baseImage \<Rightarrow>
          (if lookbook
           then st\<lparr>generatedImages := js_set (generatedImages st) 0 (Some baseImage),
                   history := take 5 (baseImage # history st),
                   calls := calls st @ map (\<lambda>i. EditCall baseImage variationPrompt None) [1, 2, 3::nat],
                   pending := AwaitVariants [1, 2, 3]\<rparr>
           else handleGenerate_finally
                  (st\<lparr>generatedImages := js_set (generatedImages st) 0 (Some baseImage),
                      history := take 5 (baseImage # history st)\<rparr>))
      | Inl m \<Rightarrow>
          handleGenerate_finally (st\<lparr>error := Some m, generatedImages := []\<rparr>))"

text \<open>The \<open>then\<close> and the \<open>catch\<close> callback of variant \<open>i\<close> (lines 319-333).\<close>

definition variant_slot :: "GenerateContentResponse api_outcome \<Rightarrow> ImageState" where
  "variant_slot outcome =
     (case editImage outcome of Inr variationImage \<Rightarrow> Some variationImage | Inl _ \<Rightarrow> Some ''error'')"

definition variant_settled :: "nat \<Rightarrow> GenerateContentResponse api_outcome \<Rightarrow> app_state \<Rightarrow> app_state" where
  "variant_settled i outcome st =
     st\<lparr>generatedImages := js_set (generatedImages st) i (variant_slot outcome)\<rparr>"

subsection \<open>handleEdit\<close>

definition faceSourceImage :: "app_state \<Rightarrow> uploaded option" where
  "faceSourceImage st =
     (case faceSourceIndex st of
        None \<Rightarrow> None
      | Some k \<Rightarrow> if k < length (originalImages st) then originalImages st ! k else None)"

text \<open>Lines 347-355, up to the \<open>await\<close>: the guard returns without touching the state.\<close>

definition handleEdit_start :: "app_state \<Rightarrow> app_state" where
  "handleEdit_start st =
     (case imageToEdit st of
        None \<Rightarrow> st
      | Some img \<Rightarrow>
          if img = [] \<or> editPrompt st = [] then st
          else st\<lparr>error := None,
                  isEditing := True,
                  calls := calls st @ [EditCall img (editPrompt st) (faceSourceImage st)],
                  editsPending := Suc (editsPending st)\<rparr>)"

definition handleEdit_settled :: "GenerateContentResponse api_outcome \<Rightarrow> app_state \<Rightarrow> app_state" where
  "handleEdit_settled outcome st =
     (case editImage outcome of
        Inr resultImage \<Rightarrow>
          st\<lparr>generatedImages := [Some resultImage],
             history := take 5 (resultImage # history st),
             editPrompt := [],
             isEditing := False,
             editsPending := editsPending st - 1\<rparr>
      | Inl m \<Rightarrow>
          st\<lparr>error := Some m, isEditing := False, editsPending := editsPending st - 1\<rparr>)"

subsection \<open>Events\<close>

text \<open>
  What can happen, in any order: the user changes an input, resets or restores an image
  from the history; \<open>handleEdit\<close> is called (by the button or by Enter in the prompt) or
  one of its suspended calls is settled; a suspended run of \<open>handleGenerate\<close> gets its base
  reply, one of its variant replies, or passes \<open>Promise.all\<close> once no variant is left.
  The button that calls \<open>handleGenerate\<close> is disabled while \<open>isLoading\<close>, that is as long
  as a run is suspended, so a run starts only when none is.  \<open>None\<close> says that the event
  cannot happen in the state.
\<close>

datatype event =
    User user_action
  | ClickGenerate
  | BaseSettles reply
  | VariantSettles nat "GenerateContentResponse api_outcome"
  | VariantsJoined
  | ClickEdit
  | EditSettles "GenerateContentResponse api_outcome"

fun handle :: "event \<Rightarrow> app_state \<Rightarrow> app_state option" where
  "handle (User a) st = map_option sync_description (user_update a st)"
| "handle ClickGenerate st =
     (if pending st = Idle then Some (handleGenerate_start st) else None)"
| "handle (BaseSettles rp) st =
     (case pending st of
        AwaitBase call lookbook \<Rightarrow>
          if reply_for call rp then Some (handleGenerate_base lookbook rp st) else None
      | _ \<Rightarrow> None)"
| "handle (VariantSettles i outcome) st =
     (case pending st of
        AwaitVariants ps \<Rightarrow>
          if i \<in> set ps
          then Some (variant_settled i outcome (st\<lparr>pending := AwaitVariants (remove1 i ps)\<rparr>))
          else None
      | _ \<Rightarrow> None)"
| "handle VariantsJoined st =
     (case pending st of
        AwaitVariants ps \<Rightarrow> if ps = [] then Some (handleGenerate_finally st) else None
      | _ \<Rightarrow> None)"
| "handle ClickEdit st = Some (handleEdit_start st)"
| "handle (EditSettles outcome) st =
     (if 0 < editsPending st then Some (handleEdit_settled outcome st) else None)"

fun exec :: "event list \<Rightarrow> app_state \<Rightarrow> app_state option" where
  "exec [] st = Some st"
| "exec (e # es) st = (case handle e st of None \<Rightarrow> None | Some st' \<Rightarrow> exec es st')"

text \<open>The images that the base calls and the edits of a sequence of events produce, oldest
  first.\<close>

fun produced_by :: "event \<Rightarrow> string list" where
  "produced_by (BaseSettles rp) = (case generateBaseImage rp of Inr img \<Rightarrow> [img] | Inl _ \<Rightarrow> [])"
| "produced_by (EditSettles outcome) = (case editImage outcome of Inr img \<Rightarrow> [img] | Inl _ \<Rightarrow> [])"
| "produced_by _ = []"

definition produced :: "event list \<Rightarrow> string list" where
  "produced evs = concat (map produced_by evs)"


definition single_run :: "reply \<Rightarrow> event list" where
  "single_run rp = [ClickGenerate, BaseSettles rp]"

section \<open>Auxiliary definitions for the properties\<close>

text \<open>A response with the finish reason of its first candidate replaced.\<close>

definition with_finishReason :: "string option \<Rightarrow> GenerateContentResponse \<Rightarrow> GenerateContentResponse" where
  "with_finishReason fr response =
     response\<lparr>candidates :=
       map_option (\<lambda>cs. case cs of [] \<Rightarrow> [] | c # rest \<Rightarrow> c\<lparr>finishReason := fr\<rparr> # rest)
         (candidates response)\<rparr>"

text \<open>The slot list after the completion callbacks of the variants in \<open>vs\<close> have run, in
  that order.\<close>

definition write_variants :: "ImageState list \<Rightarrow> (nat \<times> GenerateContentResponse api_outcome) list \<Rightarrow> ImageState list" where
  "write_variants xs vs = foldl (\<lambda>ys (i, outcome). js_set ys i (variant_slot outcome)) xs vs"

text \<open>The number of variant calls of a run: the three of \<open>[1, 2, 3]\<close> in lookbook mode, none
  otherwise.\<close>

definition variant_count :: "bool \<Rightarrow> nat" where
  "variant_count lookbook = (if lookbook then 3 else 0)"

text \<open>
  The events that leave the slots of a suspended run of \<open>handleGenerate\<close> to that run: all
  but a reset, a restore from the history and an edit that succeeds, which replace the slot
  list, and a second click on the button.
\<close>

fun run_event :: "event \<Rightarrow> bool" where
  "run_event (User Reset) = False"
| "run_event (User (RestoreFromHistory k)) = False"
| "run_event (User a) = True"
| "run_event ClickGenerate = False"
| "run_event (BaseSettles rp) = True"
| "run_event (VariantSettles i outcome) = True"
| "run_event VariantsJoined = True"
| "run_event ClickEdit = True"
| "run_event (EditSettles outcome) = isl (editImage outcome)"

text \<open>
  What holds of a run after the events \<open>E\<close>, \<open>L\<close> being the lookbook flag it started with:
  while the base call is awaited no base reply is in \<open>E\<close>; while variants are awaited the
  base image is in slot 0 and every variant is still awaited or has settled its slot; at the
  end the slots are those of the base reply and the variants.
\<close>

definition settled_slot :: "event set \<Rightarrow> ImageState list \<Rightarrow> nat \<Rightarrow> bool" where
  "settled_slot E xs i =
     ((\<exists>outcome. VariantSettles i outcome \<in> E) \<and> (slot_ready (xs ! i) \<or> slot_failed (xs ! i)))"

definition one_base :: "event set \<Rightarrow> reply \<Rightarrow> bool" where
  "one_base E rp = (BaseSettles rp \<in> E \<and> (\<forall>rp'. BaseSettles rp' \<in> E \<longrightarrow> rp' = rp))"

definition run_inv :: "bool \<Rightarrow> event set \<Rightarrow> app_state \<Rightarrow> bool" where
  "run_inv L E st =
     (case pending st of
        AwaitBase c lb \<Rightarrow>
          lb = L \<and> isLoading st \<and> (\<forall>rp. BaseSettles rp \<notin> E) \<and>
          length (generatedImages st) = (if L then 4 else 1)
      | AwaitVariants ps \<Rightarrow>
          L \<and> isLoading st \<and> distinct ps \<and> set ps \<subseteq> {1, 2, 3} \<and>
          length (generatedImages st) = 4 \<and>
          (\<exists>rp img. one_base E rp \<and> generateBaseImage rp = Inr img \<and>
                    generatedImages st ! 0 = Some img) \<and>
          (\<forall>i \<in> {1, 2, 3}. i \<in> set ps \<or> settled_slot E (generatedImages st) i)
      | Idle \<Rightarrow>
          \<not> isLoading st \<and>
          (\<exists>rp. one_base E rp \<and>
             (case generateBaseImage rp of
                Inl m \<Rightarrow> generatedImages st = []
              | Inr img \<Rightarrow>
                  if L then length (generatedImages st) = 4 \<and> generatedImages st ! 0 = Some img \<and>
                            (\<forall>i \<in> {1, 2, 3}. settled_slot E (generatedImages st) i)
                  else generatedImages st = [Some img])))"


subsection \<open>Sample inputs\<close>

text \<open>
  Concrete responses, states and schedules on which the properties are evaluated: a candidate
  without finish reason whose second part is an image, a browser in which everything works,
  replies of the image model with and without an image, a variant call that succeeds and one
  that throws, the mounted application with a description typed in (with and without
  lookbook mode), an order in which the three variants settle, and states in the middle of
  a run, with a full history, and ready for an edit.
\<close>

definition sample_candidate :: candidate where
  "sample_candidate =
     \<lparr>finishReason = None, candidate_safetyRatings = None,
      candidate_content = Some \<lparr>parts = Some
        [\<lparr>inlineData = None, part_text = Some ''here''\<rparr>,
         \<lparr>inlineData = Some \<lparr>blob_mimeType = Some ''image/png'', blob_data = Some ''QUJD''\<rparr>,
          part_text = None\<rparr>]\<rparr>\<rparr>"

definition sample_response :: GenerateContentResponse where
  "sample_response = \<lparr>promptFeedback = None, candidates = Some [sample_candidate]\<rparr>"

definition empty_text_response :: GenerateContentResponse where
  "empty_text_response =
     \<lparr>promptFeedback = None,
      candidates = Some
        [\<lparr>finishReason = Some ''STOP'', candidate_safetyRatings = None,
          candidate_content = Some \<lparr>parts = Some [\<lparr>inlineData = None, part_text = Some []\<rparr>]\<rparr>\<rparr>]\<rparr>"

definition sample_browser :: browser where
  "sample_browser = \<lparr>image_loads = True, context_available = True, encoder_returns_blob = True\<rparr>"

definition sample_image_reply :: reply where
  "sample_image_reply =
     ImagesReply (Returns \<lparr>response_generatedImages =
                              Some [\<lparr>gen_image = Some \<lparr>imageBytes = Some ''QUJD''\<rparr>\<rparr>]\<rparr>)"

definition failed_image_reply :: reply where
  "failed_image_reply =
     ImagesReply (Returns \<lparr>response_generatedImages = None\<rparr>)"

definition variant_ok :: "GenerateContentResponse api_outcome" where
  "variant_ok = Returns sample_response"

definition variant_fails :: "GenerateContentResponse api_outcome" where
  "variant_fails = ThrowsError ''503''"

definition single_state :: app_state where
  "single_state = mount_state\<lparr>modelDescription := ''red dress''\<rparr>"

definition lookbook_state :: app_state where
  "lookbook_state = mount_state\<lparr>modelDescription := ''red dress'', isLookbookMode := True\<rparr>"

definition sample_order :: "(nat \<times> GenerateContentResponse api_outcome) list" where
  "sample_order = [(3, variant_ok), (2, variant_fails), (1, variant_ok)]"


definition full_history_state :: app_state where
  "full_history_state = single_state\<lparr>history := [''data:5'', ''data:4'', ''data:3'', ''data:2'', ''data:1'']\<rparr>"

definition second_response :: GenerateContentResponse where
  "second_response =
     \<lparr>promptFeedback = None,
      candidates = Some
        [\<lparr>finishReason = Some ''STOP'', candidate_safetyRatings = None,
          candidate_content = Some \<lparr>parts = Some
            [\<lparr>inlineData = Some \<lparr>blob_mimeType = Some ''image/png'', blob_data = Some ''REVG''\<rparr>,
              part_text = None\<rparr>]\<rparr>\<rparr>]\<rparr>"

definition edit_state :: app_state where
  "edit_state =
     single_state\<lparr>generatedImages := [Some ''data:image/jpeg;base64,QUJD''],
                  editPrompt := ''add a hat''\<rparr>"




text \<open>
  Runs of \<open>handleGenerate\<close> in lookbook mode with other events in between: one in which the
  user leaves lookbook mode, types an edit prompt and starts an edit while the variants
  settle; one whose base call fails; one with a reset after the base image; one with a
  restore from the history after the first variant; and one in which an edit, started
  before the click, succeeds after the first variant.
\<close>

definition interleaved_run :: "event list" where
  "interleaved_run =
     [BaseSettles sample_image_reply, VariantSettles 3 variant_ok,
      User (SetLookbookMode False), User (SetEditPrompt ''add a hat''), ClickEdit,
      VariantSettles 2 variant_fails, VariantSettles 1 variant_ok, VariantsJoined]"

definition base_fails_run :: "event list" where
  "base_fails_run = [ClickGenerate, BaseSettles failed_image_reply]"

definition reset_in_run :: "event list" where
  "reset_in_run =
     [ClickGenerate, BaseSettles sample_image_reply, User Reset,
      VariantSettles 1 variant_ok, VariantSettles 2 variant_ok, VariantSettles 3 variant_ok,
      VariantsJoined]"

definition restore_in_run :: "event list" where
  "restore_in_run =
     [ClickGenerate, BaseSettles sample_image_reply, VariantSettles 1 variant_ok,
      User (RestoreFromHistory 0), VariantSettles 2 variant_ok, VariantSettles 3 variant_ok,
      VariantsJoined]"

definition edit_in_run :: "event list" where
  "edit_in_run =
     [ClickEdit, User (SetLookbookMode True), ClickGenerate, BaseSettles sample_image_reply,
      VariantSettles 1 variant_ok, EditSettles (Returns second_response),
      VariantSettles 2 variant_ok, VariantSettles 3 variant_ok, VariantsJoined]"

section \<open>Properties of the Generation Gateway\<close>

subsection \<open>The loops and checks, one by one\<close>

lemma image_loop_map_filter:
  "image_loop ps = (case List.map_filter inlineData ps of [] \<Rightarrow> None | b # _ \<Rightarrow> Some (data_url b))"
  by (induction ps) (auto simp: List.map_filter_simps split: option.splits)

lemma text_loop_filter:
  "text_loop ps =
     (case filter (\<lambda>t. t \<noteq> []) (List.map_filter part_text ps) of [] \<Rightarrow> None | t # _ \<Rightarrow> Some t)"
  by (induction ps) (auto simp: List.map_filter_simps split: option.splits)

lemma data_url_spec: "data_url b = spec_image b"
  by (simp add: data_url_def spec_image_def)

lemma content_parts_spec: "content_parts c = spec_parts c"
  by (simp add: content_parts_def spec_parts_def split: option.splits)

lemma first_candidate_spec: "first_candidate r = spec_candidate r"
  by (simp add: first_candidate_def spec_candidate_def split: option.splits list.splits)

lemma find_filter: "find P xs = (case filter P xs of [] \<Rightarrow> None | x # _ \<Rightarrow> Some x)"
  by (induction xs) simp_all

lemma find_harmful_spec: "find_harmful rs = spec_category rs"
proof -
  have "harmful = (\<lambda>r. probability r \<notin> {Some ''NEGLIGIBLE'', Some ''LOW''})"
    by (auto simp: harmful_def fun_eq_iff)
  then show ?thesis
    by (simp add: find_harmful_def spec_category_def find_filter split: option.splits list.splits)
qed

lemma scan_parts_spec: "map_sum kind_of id (scan_parts c) = spec_scan (spec_parts c)"
  by (simp add: scan_parts_def spec_scan_def image_loop_map_filter text_loop_filter
      content_parts_spec data_url_spec split: list.splits)

lemma block_check_spec:
  "map_option kind_of (block_check r) =
     map_option (\<lambda>(reason, cat). ContentBlocked reason cat) (spec_block_reason r)"
  by (simp add: block_check_def spec_block_reason_def truthy_def interpolate_def
      find_harmful_spec split: option.splits)

lemma finish_check_none: "(finish_check opn c = None) = (\<not> spec_rejected_finish c)"
  by (auto simp: finish_check_def spec_rejected_finish_def truthy_def validFinishReasons_def
      split: option.splits)

lemma finish_check_kind:
  "finish_check opn c = Some m \<Longrightarrow> kind_of m = spec_finish_kind c (interpolate (finishReason c))"
  by (auto simp: finish_check_def finish_switch_def spec_finish_kind_def interpolate_def
      find_harmful_spec split: option.splits if_splits)

lemma validate_response_spec:
  "map_sum kind_of id (validate_response opn r) = spec_classify r"
proof (cases "block_check r")
  case (Some m)
  with block_check_spec [of r] show ?thesis
    by (auto simp: validate_response_def spec_classify_def split: option.splits)
next
  case None
  with block_check_spec [of r] have nb: "spec_block_reason r = None" by simp
  show ?thesis
  proof (cases "spec_candidate r")
    case None
    with \<open>block_check r = None\<close> nb show ?thesis
      by (simp add: validate_response_def spec_classify_def first_candidate_spec)
  next
    case (Some c)
    show ?thesis
    proof (cases "finish_check opn c")
      case None
      with Some \<open>block_check r = None\<close> nb finish_check_none [of opn c] show ?thesis
        by (simp add: validate_response_def spec_classify_def scan_parts_spec first_candidate_spec)
    next
      case (Some m)
      with \<open>spec_candidate r = Some c\<close> \<open>block_check r = None\<close> nb
        finish_check_none [of opn c] finish_check_kind [of opn c m] show ?thesis
        by (simp add: validate_response_def spec_classify_def first_candidate_spec)
    qed
  qed
qed

lemma validate_images_spec:
  "map_sum kind_of id (validate_images g) = spec_classify (as_content_response g)"
proof (cases "response_generatedImages g")
  case None
  then show ?thesis
    by (simp add: validate_images_def spec_classify_def as_content_response_def
        spec_block_reason_def spec_candidate_def)
next
  case (Some gs)
  show ?thesis
  proof (cases gs)
    case Nil
    with Some show ?thesis
      by (simp add: validate_images_def spec_classify_def as_content_response_def
          spec_block_reason_def spec_candidate_def)
  next
    case (Cons x xs)
    have c: "spec_candidate (as_content_response g) = Some (image_candidate x)"
      using Some Cons by (simp add: as_content_response_def spec_candidate_def)
    have f: "\<not> spec_rejected_finish (image_candidate x)"
      by (simp add: spec_rejected_finish_def image_candidate_def truthy_def)
    have b: "spec_block_reason (as_content_response g) = None"
      by (simp add: spec_block_reason_def as_content_response_def)
    have "map_sum kind_of id (validate_images g) = spec_scan (spec_parts (image_candidate x))"
      using Some Cons
      by (simp add: validate_images_def spec_parts_def image_candidate_def spec_scan_def
          spec_image_def interpolate_def List.map_filter_simps split: option.splits)
    with b c f show ?thesis by (simp add: spec_classify_def)
  qed
qed

text \<open>
  C1, as the source has it: for each of the three operations a returned response is
  classified in the fixed order of the specification: an explicit block reason is a
  blocked request, with the category when there is one; else a missing first candidate
  is an empty result; else a finish reason that the candidate has and that is neither
  \<open>STOP\<close> nor \<open>FINISH_REASON_UNSPECIFIED\<close> gives its error kind; else the first part with
  inline data is the result, else the first text that is not empty is reported, else the
  result is empty.  The response of the text-to-image call is read as its generated images
  being the candidates, each with its image as the only part.
\<close>

theorem C1_validation_order:
  "map_sum kind_of id (generateTryOnImage (Returns r)) = spec_classify r \<and>
   map_sum kind_of id (editImage (Returns r)) = spec_classify r \<and>
   map_sum kind_of id (generateImageFromText (Returns g)) = spec_classify (as_content_response g)"
  by (simp add: generateTryOnImage_def editImage_def generateImageFromText_def rethrow_def
      validate_response_spec validate_images_spec)

text \<open>
  C1 as stated fails in two places.  A candidate that finished with \<open>STOP\<close> and whose only
  part is a text part with the empty text is an empty result for both functions, where the
  claim wants the text reported as an unexpected text response.  And a candidate that has
  no finish reason at all, so none of the accepted set, is not rejected: its image is the
  result.
\<close>

theorem C1_empty_text_and_absent_finish_reason:
  "map_sum kind_of id (generateTryOnImage (Returns empty_text_response)) = Inl EmptyResult \<and>
   map_sum kind_of id (editImage (Returns empty_text_response)) = Inl EmptyResult \<and>
   finishReason sample_candidate = None \<and>
   generateTryOnImage (Returns sample_response) = Inr ''data:image/png;base64,QUJD''"
  by (simp add: generateTryOnImage_def editImage_def rethrow_def validate_response_def
      block_check_def first_candidate_def finish_check_def validFinishReasons_def scan_parts_def
      content_parts_def data_url_def interpolate_def empty_text_response_def
      sample_response_def sample_candidate_def)

subsection \<open>A candidate without finish reason\<close>

lemma block_check_with_finishReason: "block_check (with_finishReason fr r) = block_check r"
  by (simp add: block_check_def with_finishReason_def)

lemma first_candidate_with_finishReason:
  "first_candidate (with_finishReason fr r) =
     map_option (\<lambda>c. c\<lparr>finishReason := fr\<rparr>) (first_candidate r)"
  by (simp add: first_candidate_def with_finishReason_def split: option.splits list.splits)

lemma content_parts_finishReason: "content_parts (c\<lparr>finishReason := fr\<rparr>) = content_parts c"
  by (simp add: content_parts_def)

lemma scan_parts_finishReason: "scan_parts (c\<lparr>finishReason := fr\<rparr>) = scan_parts c"
  unfolding scan_parts_def content_parts_finishReason by (rule refl)

lemma validate_absent_finish:
  "validate_response opn (with_finishReason None r) =
     validate_response opn (with_finishReason (Some ''STOP'') r)"
  by (simp add: validate_response_def block_check_with_finishReason
      first_candidate_with_finishReason finish_check_def validFinishReasons_def
      scan_parts_finishReason split: option.splits)

lemma validate_absent_scan:
  assumes "block_check r = None" and "first_candidate r = Some c" and "finishReason c = None"
  shows "validate_response opn r = scan_parts c"
  using assms by (simp add: validate_response_def finish_check_def)

text \<open>
  C10: in \<open>generateTryOnImage\<close> and \<open>editImage\<close> a first candidate without finish reason,
  in a response that is not blocked, goes straight to the scan of its parts; and whatever
  the response, the result is the one obtained with the finish reason \<open>STOP\<close> in its place.
\<close>

theorem C10_absent_finish_reason_accepted:
  "(block_check r = None \<and> first_candidate r = Some c \<and> finishReason c = None \<longrightarrow>
      generateTryOnImage (Returns r) = scan_parts c \<and> editImage (Returns r) = scan_parts c) \<and>
   generateTryOnImage (Returns (with_finishReason None r)) =
     generateTryOnImage (Returns (with_finishReason (Some ''STOP'') r)) \<and>
   editImage (Returns (with_finishReason None r)) =
     editImage (Returns (with_finishReason (Some ''STOP'') r))"
  by (simp add: generateTryOnImage_def editImage_def rethrow_def validate_absent_finish
      validate_absent_scan)

theorem C10_absent_finish_reason_accepted_witness:
  "block_check sample_response = None \<and> first_candidate sample_response = Some sample_candidate \<and>
   finishReason sample_candidate = None \<and>
   generateTryOnImage (Returns sample_response) = Inr ''data:image/png;base64,QUJD'' \<and>
   editImage (Returns sample_response) = Inr ''data:image/png;base64,QUJD''"
proof -
  have h: "block_check sample_response = None \<and>
      first_candidate sample_response = Some sample_candidate \<and> finishReason sample_candidate = None"
    by (simp add: block_check_def first_candidate_def sample_response_def sample_candidate_def)
  have s: "scan_parts sample_candidate = Inr ''data:image/png;base64,QUJD''"
    by (simp add: scan_parts_def content_parts_def sample_candidate_def data_url_def interpolate_def)
  from C10_absent_finish_reason_accepted [of sample_response sample_candidate] h s
  show ?thesis by simp
qed

section \<open>Properties of Upload Intake\<close>

lemma js_round_div:
  assumes "0 < w"
  shows "js_round (of_nat a / of_nat w) = int ((2 * a + w) div (2 * w))"
    and "js_round (of_nat b * of_nat c / of_nat w) = int ((2 * (b * c) + w) div (2 * w))"
proof -
  have "(of_nat a / of_nat w + 1 / 2 :: rat) = of_nat (2 * a + w) / of_nat (2 * w)" for a
    using assms by (simp add: field_simps)
  then have r: "js_round (of_nat a / of_nat w) = int ((2 * a + w) div (2 * w))" for a
    unfolding js_round_def by (simp only: floor_divide_of_nat_eq)
  show "js_round (of_nat a / of_nat w) = int ((2 * a + w) div (2 * w))" by (rule r)
  have "js_round (of_nat (b * c) / of_nat w) = int ((2 * (b * c) + w) div (2 * w))" by (rule r)
  then show "js_round (of_nat b * of_nat c / of_nat w) = int ((2 * (b * c) + w) div (2 * w))"
    by (simp only: of_nat_mult)
qed

lemma round_div_bounds:
  assumes "0 < w"
  shows "2 * \<bar>int ((2 * a + w) div (2 * w)) * int w - int a\<bar> \<le> int w"
proof -
  define k :: nat where "k = (2 * a + w) div (2 * w)"
  define r :: nat where "r = (2 * a + w) mod (2 * w)"
  have eq: "2 * a + w = k * (2 * w) + r"
    unfolding k_def r_def by (rule div_mult_mod_eq [symmetric])
  have r: "r < 2 * w" using assms by (simp add: r_def)
  from eq have "2 * int a + int w = int k * (2 * int w) + int r"
    by (metis (mono_tags, opaque_lifting) of_nat_add of_nat_mult of_nat_numeral)
  with r show ?thesis unfolding k_def [symmetric] by (simp add: abs_if algebra_simps)
qed

lemma round_div_max: "0 < (w::nat) \<Longrightarrow> h \<le> w \<Longrightarrow> (2 * (h * m) + w) div (2 * w) \<le> m"
proof -
  assume w: "0 < w" and h: "h \<le> w"
  have "2 * (h * m) + w \<le> 2 * (w * m) + w" using h by simp
  then have "(2 * (h * m) + w) div (2 * w) \<le> (2 * (w * m) + w) div (2 * w)"
    by (rule div_le_mono)
  also have "2 * (w * m) + w = w + m * (2 * w)" by simp
  also have "(w + m * (2 * w)) div (2 * w) = m" using w by simp
  finally show ?thesis .
qed

lemma resize_dimensions_unchanged:
  "max w h \<le> m \<Longrightarrow> resize_dimensions w h m = (w, h)"
  by (auto simp: resize_dimensions_def)

lemma resize_dimensions_wide:
  assumes "h < w" and "m < w"
  shows "fst (resize_dimensions w h m) = m"
    and "snd (resize_dimensions w h m) \<le> m"
    and "2 * \<bar>int (snd (resize_dimensions w h m)) * int w - int h * int m\<bar> \<le> int w"
proof -
  from assms have w: "0 < w" by simp
  have s: "snd (resize_dimensions w h m) = (2 * (h * m) + w) div (2 * w)"
    using assms by (simp add: resize_dimensions_def js_round_div [OF w])
  show "fst (resize_dimensions w h m) = m" using assms by (simp add: resize_dimensions_def)
  show "snd (resize_dimensions w h m) \<le> m"
    unfolding s using assms by (intro round_div_max) auto
  show "2 * \<bar>int (snd (resize_dimensions w h m)) * int w - int h * int m\<bar> \<le> int w"
    unfolding s using round_div_bounds [OF w, of "h * m"] by simp
qed

lemma resize_dimensions_tall:
  assumes "w \<le> h" and "m < h"
  shows "snd (resize_dimensions w h m) = m"
    and "fst (resize_dimensions w h m) \<le> m"
    and "2 * \<bar>int (fst (resize_dimensions w h m)) * int h - int w * int m\<bar> \<le> int h"
proof -
  from assms have h: "0 < h" by simp
  have s: "fst (resize_dimensions w h m) = (2 * (w * m) + h) div (2 * h)"
    using assms by (simp add: resize_dimensions_def js_round_div [OF h])
  show "snd (resize_dimensions w h m) = m" using assms by (simp add: resize_dimensions_def)
  show "fst (resize_dimensions w h m) \<le> m"
    unfolding s using assms by (intro round_div_max) auto
  show "2 * \<bar>int (fst (resize_dimensions w h m)) * int h - int w * int m\<bar> \<le> int h"
    unfolding s using round_div_bounds [OF h, of "w * m"] by simp
qed

lemma upload_resize_ok:
  assumes "image_loads env" and "context_available env" and "encoder_returns_blob env"
  shows "upload_resize env w h =
           Inr \<lparr>encoded_width = fst (resize_dimensions w h 1024),
                encoded_height = snd (resize_dimensions w h 1024),
                encoded_type = ''image/jpeg'', encoded_quality = 9 / 10\<rparr>"
  using assms by (simp add: upload_resize_def resizeImageBlob_def)

lemma resize_1024_small:
  "max w h \<le> 1024 \<Longrightarrow> fst (resize_dimensions w h 1024) = w \<and> snd (resize_dimensions w h 1024) = h"
  by (simp add: resize_dimensions_unchanged)

lemma resize_1024_wide:
  assumes "1024 < w" and "h < w"
  shows "fst (resize_dimensions w h 1024) = 1024 \<and> snd (resize_dimensions w h 1024) \<le> 1024 \<and>
         2 * \<bar>int (snd (resize_dimensions w h 1024)) * int w - int h * 1024\<bar> \<le> int w"
  using resize_dimensions_wide [OF assms(2) assms(1)] by (simp only: of_nat_numeral)

lemma resize_1024_tall:
  assumes "1024 < h" and "w \<le> h"
  shows "snd (resize_dimensions w h 1024) = 1024 \<and> fst (resize_dimensions w h 1024) \<le> 1024 \<and>
         2 * \<bar>int (fst (resize_dimensions w h 1024)) * int h - int w * 1024\<bar> \<le> int h"
  using resize_dimensions_tall [OF assms(2) assms(1)] by (simp only: of_nat_numeral)

lemma resize_1024_big:
  assumes "1024 < max w h"
  shows "max (fst (resize_dimensions w h 1024)) (snd (resize_dimensions w h 1024)) = 1024"
proof (cases "h < w")
  case True
  with assms have "1024 < w" by (simp add: max_def split: if_splits)
  from resize_1024_wide [OF this True] show ?thesis by (simp add: max_def)
next
  case False
  with assms have "1024 < h" "w \<le> h" by (simp_all add: max_def split: if_splits)
  from resize_1024_tall [OF this] show ?thesis by (simp add: max_def)
qed

lemma resize_sample: "resize_dimensions 4000 3000 1024 = (1024, 768)"
proof -
  have "js_round (of_nat 3000 * of_nat 1024 / of_nat 4000) =
          int ((2 * (3000 * 1024) + 4000) div (2 * 4000))"
    by (rule js_round_div(2)) simp
  also have "\<dots> = 768" by simp
  finally have "js_round (3000 * 1024 / 4000) = 768" by simp
  then show ?thesis by (simp add: resize_dimensions_def)
qed

text \<open>
  C9: when the browser loads the image and encodes the canvas, the upload is encoded as
  \<open>image/jpeg\<close> with quality \<open>0.9\<close>; an image whose longer side is at most 1024 keeps its
  width and height; otherwise the longer side becomes 1024 and the other side is the
  nearest integer to its proportional value (it differs from \<open>short * 1024 / long\<close> by at
  most a half), so the longer side of the result is 1024.
\<close>

theorem C9_upload_resize:
  assumes "image_loads env" and "context_available env" and "encoder_returns_blob env"
  shows "\<exists>b. upload_resize env w h = Inr b \<and>
           encoded_type b = ''image/jpeg'' \<and> encoded_quality b = 9 / 10 \<and>
           (max w h \<le> 1024 \<longrightarrow> encoded_width b = w \<and> encoded_height b = h) \<and>
           (1024 < max w h \<longrightarrow> max (encoded_width b) (encoded_height b) = 1024) \<and>
           (1024 < w \<and> h < w \<longrightarrow> encoded_width b = 1024 \<and>
              2 * \<bar>int (encoded_height b) * int w - int h * 1024\<bar> \<le> int w) \<and>
           (1024 < h \<and> w \<le> h \<longrightarrow> encoded_height b = 1024 \<and>
              2 * \<bar>int (encoded_width b) * int h - int w * 1024\<bar> \<le> int h)"
proof (intro exI conjI impI)
  show "upload_resize env w h =
           Inr \<lparr>encoded_width = fst (resize_dimensions w h 1024),
                encoded_height = snd (resize_dimensions w h 1024),
                encoded_type = ''image/jpeg'', encoded_quality = 9 / 10\<rparr>"
    by (rule upload_resize_ok [OF assms])
qed (simp_all add: resize_1024_small resize_1024_wide resize_1024_tall resize_1024_big)

theorem C9_upload_resize_witness:
  "image_loads sample_browser \<and> context_available sample_browser \<and>
   encoder_returns_blob sample_browser \<and>
   (\<exists>b. upload_resize sample_browser 4000 3000 = Inr b \<and>
        encoded_type b = ''image/jpeg'' \<and> encoded_quality b = 9 / 10 \<and>
        encoded_width b = 1024 \<and> encoded_height b = 768)"
proof -
  have h: "image_loads sample_browser" "context_available sample_browser"
    "encoder_returns_blob sample_browser"
    by (simp_all add: sample_browser_def)
  from C9_upload_resize [OF h, of 4000 3000] obtain b where
    b: "upload_resize sample_browser 4000 3000 = Inr b" "encoded_type b = ''image/jpeg''"
      "encoded_quality b = 9 / 10"
    by blast
  from b(1) upload_resize_ok [OF h, of 4000 3000] resize_sample
  have "encoded_width b = 1024 \<and> encoded_height b = 768" by auto
  with h b show ?thesis by blast
qed

section \<open>Properties of the Lookbook Orchestrator\<close>

subsection \<open>The state after mounting\<close>

lemma map_filter_replicate_None: "List.map_filter id (replicate n None) = []"
  by (induction n) (simp_all add: List.map_filter_simps)

lemma mount_state_fields:
  "uploadedImages mount_state = []" "modelDescription mount_state = []"
  "pending mount_state = Idle" "calls mount_state = []" "generatedImages mount_state = []"
  "\<not> isLoading mount_state" "history mount_state = []" "error mount_state = None"
  by (simp_all add: mount_state_def sync_description_def hasImages_def uploadedImages_def
      map_filter_replicate_None)

text \<open>
  C6: \<open>handleGenerate\<close> with no uploaded image and an empty description surfaces the
  validation message and stops: no gateway call is issued, the slots are as they were (none
  is set to loading), and \<open>isLoading\<close> keeps its value.
\<close>

theorem C6_generate_validation:
  assumes "pending st = Idle" and "uploadedImages st = []" and "modelDescription st = []"
  shows "\<exists>st'. handle ClickGenerate st = Some st' \<and>
           map_option kind_of (error st') = Some ValidationError \<and>
           calls st' = calls st \<and> generatedImages st' = generatedImages st \<and>
           isLoading st' = isLoading st \<and> pending st' = Idle"
  using assms by (simp add: handleGenerate_start_def)

theorem C6_generate_validation_witness:
  "pending mount_state = Idle \<and> uploadedImages mount_state = [] \<and>
   modelDescription mount_state = [] \<and>
   (\<exists>st'. handle ClickGenerate mount_state = Some st' \<and>
      map_option kind_of (error st') = Some ValidationError \<and>
      calls st' = [] \<and> generatedImages st' = [] \<and> \<not> isLoading st' \<and> pending st' = Idle)"
  using C6_generate_validation [OF mount_state_fields(3) mount_state_fields(1) mount_state_fields(2)]
  by (simp add: mount_state_fields)



subsection \<open>Results of the gateway are data URLs\<close>

text \<open>A result of the gateway starts with \<open>data:\<close>, so it is neither of the two marker
  strings and not empty.\<close>

lemma image_loop_prefix: "image_loop ps = Some url \<Longrightarrow> take 5 url = ''data:''"
  by (induction ps) (auto simp: data_url_def split: option.splits)

lemma scan_parts_prefix: "scan_parts c = Inr url \<Longrightarrow> take 5 url = ''data:''"
  by (auto simp: scan_parts_def image_loop_prefix split: if_splits option.splits)

lemma validate_response_prefix: "validate_response opn r = Inr url \<Longrightarrow> take 5 url = ''data:''"
  by (auto simp: validate_response_def scan_parts_prefix split: option.splits)

lemma validate_images_prefix: "validate_images r = Inr url \<Longrightarrow> take 5 url = ''data:''"
  by (auto simp: validate_images_def split: option.splits list.splits if_splits)

lemma rethrow_prefix:
  assumes "rethrow opn v outcome = Inr url" and "\<And>r. v r = Inr url \<Longrightarrow> take 5 url = ''data:''"
  shows "take 5 url = ''data:''"
  using assms by (cases outcome) (auto simp: rethrow_def)

lemma editImage_prefix: "editImage outcome = Inr url \<Longrightarrow> take 5 url = ''data:''"
  unfolding editImage_def by (erule rethrow_prefix) (rule validate_response_prefix)

lemma generateBaseImage_prefix: "generateBaseImage rp = Inr url \<Longrightarrow> take 5 url = ''data:''"
proof (cases rp)
  case (ImagesReply outcome)
  assume "generateBaseImage rp = Inr url"
  with ImagesReply have "rethrow TextToImage validate_images outcome = Inr url"
    by (simp add: generateImageFromText_def)
  then show ?thesis by (rule rethrow_prefix) (rule validate_images_prefix)
next
  case (ContentReply outcome)
  assume "generateBaseImage rp = Inr url"
  with ContentReply have "rethrow TryOn (validate_response TryOn) outcome = Inr url"
    by (simp add: generateTryOnImage_def)
  then show ?thesis by (rule rethrow_prefix) (rule validate_response_prefix)
qed

lemma data_prefix_ready: "take 5 url = ''data:'' \<Longrightarrow> slot_ready (Some url) \<and> url \<noteq> []"
  by (auto simp: slot_ready_def)

lemma variant_slot_ok:
  "editImage outcome = Inr url \<Longrightarrow> variant_slot outcome = Some url \<and> slot_ready (variant_slot outcome)"
  using data_prefix_ready [OF editImage_prefix] by (simp add: variant_slot_def)

lemma variant_slot_failed: "editImage outcome = Inl m \<Longrightarrow> slot_failed (variant_slot outcome)"
  by (simp add: variant_slot_def slot_failed_def)

lemma variant_slot_settled: "slot_ready (variant_slot outcome) \<or> slot_failed (variant_slot outcome)"
proof (cases "editImage outcome")
  case (Inl m)
  then show ?thesis using variant_slot_failed by blast
next
  case (Inr url)
  then show ?thesis using variant_slot_ok by blast
qed

lemma ready_not_loading: "slot_ready s \<Longrightarrow> \<not> slot_loading s \<and> \<not> slot_failed s"
  by (auto simp: slot_ready_def slot_loading_def slot_failed_def)

lemma failed_not_loading: "slot_failed s \<Longrightarrow> \<not> slot_loading s"
  by (auto simp: slot_loading_def slot_failed_def)

subsection \<open>Array writes\<close>

lemma js_set_length: "i < length xs \<Longrightarrow> length (js_set xs i v) = length xs"
  by (simp add: js_set_def)

lemma js_set_same: "i < length xs \<Longrightarrow> js_set xs i v ! i = v"
  by (simp add: js_set_def)

lemma js_set_other: "j \<noteq> i \<Longrightarrow> j < length xs \<Longrightarrow> js_set xs i v ! j = xs ! j"
  by (simp add: js_set_def nth_append)





subsection \<open>Runs\<close>








lemma start_valid:
  assumes "pending st = Idle" and "uploadedImages st \<noteq> [] \<or> modelDescription st \<noteq> []"
  shows "handle ClickGenerate st =
           Some (st\<lparr>error := None, isLoading := True,
                    generatedImages :=
                      (if isLookbookMode st then replicate 4 (Some ''loading'') else [Some ''loading'']),
                    calls := calls st @ [generateBaseImage_call st],
                    pending := AwaitBase (generateBaseImage_call st) (isLookbookMode st)\<rparr>)"
  using assms by (auto simp: handleGenerate_start_def)

lemma base_call_not_edit: "generateBaseImage_call st \<noteq> EditCall img p f"
  by (simp add: generateBaseImage_call_def)

lemma three_variants: "distinct (map fst vs) \<Longrightarrow> set (map fst vs) = {1, 2, 3::nat} \<Longrightarrow> length vs = 3"
proof -
  assume d: "distinct (map fst vs)" and s: "set (map fst vs) = {1, 2, 3::nat}"
  from d have "card (set (map fst vs)) = length (map fst vs)" by (rule distinct_card)
  with s show ?thesis by simp
qed








lemma single_run_exec:
  assumes idle: "pending st = Idle"
    and valid: "uploadedImages st \<noteq> [] \<or> modelDescription st \<noteq> []"
    and match: "reply_for (generateBaseImage_call st) rp"
    and ok: "generateBaseImage rp = Inr img"
    and look: "\<not> isLookbookMode st"
  shows "exec (single_run rp) st =
           Some (st\<lparr>error := None, isLoading := False,
                    generatedImages := [Some img],
                    history := take 5 (img # history st),
                    calls := calls st @ [generateBaseImage_call st],
                    pending := Idle\<rparr>)"
    and "\<forall>n. 0 < n \<and> n < length (single_run rp) \<longrightarrow>
           (\<exists>s'. exec (take n (single_run rp)) st = Some s' \<and> isLoading s')"
proof -
  let ?st1 = "st\<lparr>error := None, isLoading := True,
                 generatedImages := [Some ''loading''],
                 calls := calls st @ [generateBaseImage_call st],
                 pending := AwaitBase (generateBaseImage_call st) False\<rparr>"
  have h1: "handle ClickGenerate st = Some ?st1"
    using start_valid [OF idle valid] look by simp
  show "exec (single_run rp) st =
           Some (st\<lparr>error := None, isLoading := False,
                    generatedImages := [Some img],
                    history := take 5 (img # history st),
                    calls := calls st @ [generateBaseImage_call st],
                    pending := Idle\<rparr>)"
    unfolding single_run_def using match ok
    by (simp add: h1 handleGenerate_base_def handleGenerate_finally_def js_set_def
        del: handle.simps(2))
  show "\<forall>n. 0 < n \<and> n < length (single_run rp) \<longrightarrow>
           (\<exists>s'. exec (take n (single_run rp)) st = Some s' \<and> isLoading s')"
  proof (intro allI impI)
    fix n assume "0 < n \<and> n < length (single_run rp)"
    then have "n = 1" by (simp add: single_run_def)
    then show "\<exists>s'. exec (take n (single_run rp)) st = Some s' \<and> isLoading s'"
      unfolding single_run_def by (simp add: h1 del: handle.simps)
  qed
qed



lemma sample_state_fields:
  "pending lookbook_state = Idle" "isLookbookMode lookbook_state"
  "uploadedImages lookbook_state = []" "modelDescription lookbook_state = ''red dress''"
  "error lookbook_state = None" "history lookbook_state = []" "calls lookbook_state = []"
  "generatedImages lookbook_state = []" "\<not> isLoading lookbook_state"
  "aspectRatio lookbook_state = ''3:4''" "photoStyle lookbook_state = ''Chup studio''"
  "pending single_state = Idle" "\<not> isLookbookMode single_state"
  "uploadedImages single_state = []" "modelDescription single_state = ''red dress''"
  "error single_state = None" "history single_state = []" "calls single_state = []"
  "generatedImages single_state = []" "\<not> isLoading single_state"
  "aspectRatio single_state = ''3:4''" "photoStyle single_state = ''Chup studio''"
  by (simp_all add: lookbook_state_def single_state_def mount_state_def sync_description_def
      hasImages_def uploadedImages_def map_filter_replicate_None
      INITIAL_ASPECT_RATIO_def INITIAL_PHOTO_STYLE_def)

lemma sample_calls:
  "generateBaseImage_call lookbook_state = TextCall ''red dress. Phong cach: Chup studio.'' ''3:4''"
  "generateBaseImage_call single_state = TextCall ''red dress. Phong cach: Chup studio.'' ''3:4''"
  by (simp_all add: generateBaseImage_call_def fullPrompt_def sample_state_fields)

lemma sample_results:
  "generateBaseImage sample_image_reply = Inr ''data:image/jpeg;base64,QUJD''"
  "generateBaseImage failed_image_reply = Inl Msg_no_generated_image"
  "editImage variant_ok = Inr ''data:image/png;base64,QUJD''"
  "editImage variant_fails = Inl (Msg_api ''503'')"
  by (simp_all add: sample_image_reply_def failed_image_reply_def variant_ok_def variant_fails_def
      generateImageFromText_def editImage_def rethrow_def validate_images_def
      validate_response_def block_check_def first_candidate_def finish_check_def
      scan_parts_def content_parts_def data_url_def interpolate_def
      sample_response_def sample_candidate_def)

lemma sample_match:
  "reply_for (generateBaseImage_call lookbook_state) sample_image_reply"
  "reply_for (generateBaseImage_call single_state) sample_image_reply"
  "reply_for (generateBaseImage_call single_state) failed_image_reply"
  "reply_for (generateBaseImage_call lookbook_state) failed_image_reply"
  by (simp_all add: sample_calls sample_image_reply_def failed_image_reply_def)

lemma sample_slots:
  "write_variants (js_set (replicate 4 (Some ''loading'')) 0 (Some ''data:image/jpeg;base64,QUJD''))
     sample_order =
   [Some ''data:image/jpeg;base64,QUJD'', Some ''data:image/png;base64,QUJD'', Some ''error'',
    Some ''data:image/png;base64,QUJD'']"
  by (simp add: write_variants_def sample_order_def js_set_def variant_slot_def sample_results
      numeral_eq_Suc)



subsection \<open>A run of handleGenerate\<close>

text \<open>The events of \<open>run_event\<close> leave \<open>pending\<close>, \<open>isLoading\<close> and the slots to the run.\<close>

lemma run_inv_cong:
  assumes "run_inv L E st" and "pending st' = pending st" and "isLoading st' = isLoading st"
    and "generatedImages st' = generatedImages st"
    and "\<And>rp. (BaseSettles rp \<in> E') = (BaseSettles rp \<in> E)"
    and "\<And>i outcome. (VariantSettles i outcome \<in> E') = (VariantSettles i outcome \<in> E)"
  shows "run_inv L E' st'"
proof -
  have s: "settled_slot E' xs i = settled_slot E xs i" for xs i
    by (simp add: settled_slot_def assms(6))
  have b: "one_base E' rp = one_base E rp" for rp
    by (simp add: one_base_def assms(5))
  from assms(1) show ?thesis
    unfolding run_inv_def assms(2,3,4) s b assms(5) .
qed

lemma user_update_quiet:
  assumes "user_update a st = Some st'" and "run_event (User a)"
  shows "pending st' = pending st \<and> isLoading st' = isLoading st \<and>
         generatedImages st' = generatedImages st"
  using assms by (cases a) auto

lemma sync_description_quiet:
  "pending (sync_description st) = pending st \<and> isLoading (sync_description st) = isLoading st \<and>
   generatedImages (sync_description st) = generatedImages st"
  by (simp add: sync_description_def)

lemma handleEdit_start_quiet:
  "pending (handleEdit_start st) = pending st \<and> isLoading (handleEdit_start st) = isLoading st \<and>
   generatedImages (handleEdit_start st) = generatedImages st"
  by (simp add: handleEdit_start_def split: option.splits)

lemma handleEdit_failed_quiet:
  assumes "isl (editImage outcome)"
  shows "pending (handleEdit_settled outcome st) = pending st \<and>
         isLoading (handleEdit_settled outcome st) = isLoading st \<and>
         generatedImages (handleEdit_settled outcome st) = generatedImages st"
  using assms by (cases "editImage outcome") (simp_all add: handleEdit_settled_def)


lemma one_base_insert: "(\<And>rp'. e \<noteq> BaseSettles rp') \<Longrightarrow> one_base (insert e E) rp = one_base E rp"
  by (auto simp: one_base_def)

lemma one_base_new: "(\<And>rp'. BaseSettles rp' \<notin> E) \<Longrightarrow> one_base (insert (BaseSettles rp) E) rp"
  by (auto simp: one_base_def)

lemma settled_slot_keep:
  "settled_slot E xs j \<Longrightarrow> xs' ! j = xs ! j \<Longrightarrow> settled_slot (insert e E) xs' j"
  by (auto simp: settled_slot_def)

lemma settled_slot_new:
  "xs ! i = variant_slot outcome \<Longrightarrow> settled_slot (insert (VariantSettles i outcome) E) xs i"
  using variant_slot_settled [of outcome] by (auto simp: settled_slot_def)

lemma js_set_single: "length xs = 1 \<Longrightarrow> js_set xs 0 v = [v]"
  by (cases xs) (simp_all add: js_set_def)

lemma run_inv_quiet:
  assumes "run_inv L E st" and "pending st' = pending st" and "isLoading st' = isLoading st"
    and "generatedImages st' = generatedImages st"
    and "\<And>rp. e \<noteq> BaseSettles rp" and "\<And>i outcome. e \<noteq> VariantSettles i outcome"
  shows "run_inv L (insert e E) st'"
  using assms(1-4) by (rule run_inv_cong) (use assms(5,6) in auto)

lemma run_inv_base:
  assumes inv: "run_inv L E st" and p: "pending st = AwaitBase c lb"
  shows "run_inv L (insert (BaseSettles rp) E) (handleGenerate_base lb rp st)"
proof -
  from inv p have lb: "lb = L" and load: "isLoading st" and none: "\<And>rp'. BaseSettles rp' \<notin> E"
    and len: "length (generatedImages st) = (if L then 4 else 1)"
    by (simp_all add: run_inv_def)
  note ob = one_base_new [of E rp, OF none]
  show ?thesis
  proof (cases "generateBaseImage rp")
    case (Inl m)
    have "pending (handleGenerate_base lb rp st) = Idle"
      "\<not> isLoading (handleGenerate_base lb rp st)"
      "generatedImages (handleGenerate_base lb rp st) = []"
      using Inl by (simp_all add: handleGenerate_base_def handleGenerate_finally_def)
    with ob Inl show ?thesis unfolding run_inv_def by (auto intro!: exI [of _ rp])
  next
    case (Inr img)
    show ?thesis
    proof (cases L)
      case True
      with len have l4: "length (generatedImages st) = 4" by simp
      have f: "pending (handleGenerate_base lb rp st) = AwaitVariants [1, 2, 3]"
        "isLoading (handleGenerate_base lb rp st)"
        "generatedImages (handleGenerate_base lb rp st) = js_set (generatedImages st) 0 (Some img)"
        using Inr True lb load by (simp_all add: handleGenerate_base_def)
      have g: "length (js_set (generatedImages st) 0 (Some img)) = 4"
        "js_set (generatedImages st) 0 (Some img) ! 0 = Some img"
        using l4 by (simp_all add: js_set_length js_set_same)
      have b: "\<exists>rp' img'. one_base (insert (BaseSettles rp) E) rp' \<and> generateBaseImage rp' = Inr img' \<and>
                js_set (generatedImages st) 0 (Some img) ! 0 = Some img'"
        using ob Inr g(2) by blast
      show ?thesis
        unfolding run_inv_def using True g(1) b f(2) by (simp add: f(1,3))
    next
      case False
      with len have l1: "length (generatedImages st) = 1" by simp
      have f: "pending (handleGenerate_base lb rp st) = Idle"
        "\<not> isLoading (handleGenerate_base lb rp st)"
        "generatedImages (handleGenerate_base lb rp st) = [Some img]"
        using Inr False lb js_set_single [OF l1]
        by (simp_all add: handleGenerate_base_def handleGenerate_finally_def)
      from ob Inr False f(2) show ?thesis
        unfolding run_inv_def by (auto simp: f(1,3) intro!: exI [of _ rp])
    qed
  qed
qed

lemma run_inv_variant:
  assumes inv: "run_inv L E st" and p: "pending st = AwaitVariants ps" and i: "i \<in> set ps"
  shows "run_inv L (insert (VariantSettles i outcome) E)
           (variant_settled i outcome (st\<lparr>pending := AwaitVariants (remove1 i ps)\<rparr>))"
proof -
  let ?xs = "generatedImages st"
  let ?ys = "js_set ?xs i (variant_slot outcome)"
  let ?E = "insert (VariantSettles i outcome) E"
  from inv p have L: L and load: "isLoading st" and d: "distinct ps" and sub: "set ps \<subseteq> {1, 2, 3}"
    and len: "length ?xs = 4"
    and base: "\<exists>rp img. one_base E rp \<and> generateBaseImage rp = Inr img \<and> ?xs ! 0 = Some img"
    and rest: "\<forall>j \<in> {1, 2, 3}. j \<in> set ps \<or> settled_slot E ?xs j"
    by (simp_all add: run_inv_def)
  from i sub have i3: "i \<in> {1, 2, 3}" by blast
  then have i4: "i < length ?xs" "i \<noteq> 0" using len by auto
  have ly: "length ?ys = 4" using i4 len by (simp add: js_set_length)
  have y0: "?ys ! 0 = ?xs ! 0" using i4 len by (simp add: js_set_other)
  have base': "\<exists>rp img. one_base ?E rp \<and> generateBaseImage rp = Inr img \<and> ?ys ! 0 = Some img"
    using base y0 by (simp add: one_base_insert)
  have rest': "\<forall>j \<in> {1, 2, 3}. j \<in> set (remove1 i ps) \<or> settled_slot ?E ?ys j"
  proof
    fix j assume j: "j \<in> {1, 2, 3::nat}"
    show "j \<in> set (remove1 i ps) \<or> settled_slot ?E ?ys j"
    proof (cases "j = i")
      case True
      have "?ys ! i = variant_slot outcome" using i4 by (simp add: js_set_same)
      then show ?thesis using True by (simp add: settled_slot_new)
    next
      case False
      from j len have j4: "j < length ?xs" by auto
      from False j4 have same: "?ys ! j = ?xs ! j" by (simp add: js_set_other)
      from rest j have "j \<in> set ps \<or> settled_slot E ?xs j" by blast
      then show ?thesis
      proof
        assume "j \<in> set ps"
        with False d show ?thesis by simp
      next
        assume "settled_slot E ?xs j"
        then show ?thesis using same by (simp add: settled_slot_keep)
      qed
    qed
  qed
  have d': "distinct (remove1 i ps)" "set (remove1 i ps) \<subseteq> {1, 2, 3}"
    using d sub by (auto simp: set_remove1_eq)
  show ?thesis
    unfolding run_inv_def using L load d' ly base' rest' by (simp add: variant_settled_def)
qed

lemma run_inv_join:
  assumes inv: "run_inv L E st" and p: "pending st = AwaitVariants []"
  shows "run_inv L (insert VariantsJoined E) (handleGenerate_finally st)"
proof -
  let ?xs = "generatedImages st"
  from inv p have L: L and len: "length ?xs = 4"
    and base: "\<exists>rp img. one_base E rp \<and> generateBaseImage rp = Inr img \<and> ?xs ! 0 = Some img"
    and rest: "\<forall>j \<in> {1, 2, 3}. settled_slot E ?xs j"
    by (simp_all add: run_inv_def)
  from base obtain rp img where b: "one_base E rp" "generateBaseImage rp = Inr img" "?xs ! 0 = Some img"
    by blast
  have b': "one_base (insert VariantsJoined E) rp" using b(1) by (simp add: one_base_insert)
  have rest': "\<forall>j \<in> {1, 2, 3}. settled_slot (insert VariantsJoined E) ?xs j"
    using rest by (auto intro: settled_slot_keep)
  show ?thesis
    unfolding run_inv_def using L len b' b(2,3) rest'
    by (auto simp: handleGenerate_finally_def intro!: exI [of _ rp])
qed

lemma run_inv_step:
  assumes inv: "run_inv L E st" and ev: "run_event e" and h: "handle e st = Some st'"
  shows "run_inv L (insert e E) st'"
proof (cases e)
  case (User a)
  with h obtain s where s: "user_update a st = Some s" and st': "st' = sync_description s"
    by auto
  from user_update_quiet [OF s] ev User sync_description_quiet [of s]
  have "pending st' = pending st" "isLoading st' = isLoading st"
    "generatedImages st' = generatedImages st"
    by (simp_all add: st')
  with inv show ?thesis unfolding User by (rule run_inv_quiet) simp_all
next
  case ClickGenerate
  with ev show ?thesis by simp
next
  case (BaseSettles rp)
  with h obtain c lb where p: "pending st = AwaitBase c lb" and st': "st' = handleGenerate_base lb rp st"
    by (auto split: phase.splits if_splits)
  show ?thesis unfolding BaseSettles st' by (rule run_inv_base [OF inv p])
next
  case (VariantSettles i outcome)
  with h obtain ps where p: "pending st = AwaitVariants ps" and i: "i \<in> set ps"
    and st': "st' = variant_settled i outcome (st\<lparr>pending := AwaitVariants (remove1 i ps)\<rparr>)"
    by (auto split: phase.splits if_splits)
  show ?thesis unfolding VariantSettles st' by (rule run_inv_variant [OF inv p i])
next
  case VariantsJoined
  with h have p: "pending st = AwaitVariants []" and st': "st' = handleGenerate_finally st"
    by (auto split: phase.splits if_splits)
  show ?thesis unfolding VariantsJoined st' by (rule run_inv_join [OF inv p])
next
  case ClickEdit
  with h have st': "st' = handleEdit_start st" by simp
  from handleEdit_start_quiet [of st]
  have "pending st' = pending st" "isLoading st' = isLoading st"
    "generatedImages st' = generatedImages st"
    by (simp_all add: st')
  with inv show ?thesis unfolding ClickEdit by (rule run_inv_quiet) simp_all
next
  case (EditSettles outcome)
  with h have st': "st' = handleEdit_settled outcome st"
    by (simp split: if_splits)
  from ev EditSettles have "isl (editImage outcome)" by simp
  from handleEdit_failed_quiet [OF this, of st]
  have "pending st' = pending st" "isLoading st' = isLoading st"
    "generatedImages st' = generatedImages st"
    by (simp_all add: st')
  with inv show ?thesis unfolding EditSettles by (rule run_inv_quiet) simp_all
qed

lemma run_inv_exec:
  assumes "run_inv L E st" and "\<forall>e \<in> set evs. run_event e" and "exec evs st = Some st'"
  shows "run_inv L (E \<union> set evs) st'"
  using assms
proof (induction evs arbitrary: E st)
  case Nil
  then show ?case by simp
next
  case (Cons e evs)
  from Cons.prems obtain s where s: "handle e st = Some s" and r: "exec evs s = Some st'"
    by (auto split: option.splits)
  from Cons.prems have "run_inv L (insert e E) s"
    by (intro run_inv_step [OF _ _ s]) simp_all
  from Cons.IH [OF this _ r] Cons.prems show ?case by simp
qed

lemma run_inv_start:
  assumes "pending st = Idle" and "uploadedImages st \<noteq> [] \<or> modelDescription st \<noteq> []"
  shows "run_inv (isLookbookMode st) {} (handleGenerate_start st)"
  using assms by (auto simp: run_inv_def handleGenerate_start_def)

lemma settled_slots:
  assumes len: "length xs = 4" and x0: "xs ! 0 = Some img" and r: "slot_ready (Some img)"
    and rest: "\<forall>i \<in> {1, 2, 3}. settled_slot E xs i"
  shows "\<forall>x \<in> set xs. (slot_ready x \<or> slot_failed x) \<and> \<not> slot_loading x"
proof
  fix x assume "x \<in> set xs"
  then obtain j where j: "j < 4" "xs ! j = x" using len by (auto simp: in_set_conv_nth)
  from j(1) have "j = 0 \<or> j \<in> {1, 2, 3}" by auto
  then have "slot_ready x \<or> slot_failed x"
  proof
    assume "j = 0"
    with j x0 r show ?thesis by simp
  next
    assume "j \<in> {1, 2, 3}"
    with rest j show ?thesis by (auto simp: settled_slot_def)
  qed
  then show "(slot_ready x \<or> slot_failed x) \<and> \<not> slot_loading x"
    using ready_not_loading failed_not_loading by blast
qed

lemma settled_events:
  "\<forall>i \<in> {1, 2, 3}. settled_slot E xs i \<Longrightarrow>
   \<forall>i \<in> {1..3}. \<exists>outcome. VariantSettles i outcome \<in> E"
proof
  fix i :: nat
  assume a: "\<forall>i \<in> {1, 2, 3}. settled_slot E xs i" and "i \<in> {1..3}"
  then have "i \<in> {1, 2, 3}" by auto
  with a show "\<exists>outcome. VariantSettles i outcome \<in> E" by (auto simp: settled_slot_def)
qed


text \<open>
  C2, for the runs whose base call succeeds and between whose events no reset, no restore
  from the history and no successful edit replaces the slot list: the number \<open>N\<close> of
  variants is 3 in lookbook mode and 0 otherwise.  Take any sequence of events after the
  click, in any order the handlers allow, the user typing, toggling and starting edits in
  between.  Then \<open>isLoading\<close> is true exactly as long as the run is suspended, so it is
  false only after the base call and, when that succeeded, all \<open>N\<close> variant calls have
  settled and the join has passed; and once the run has settled there are one base slot,
  holding the base image, and \<open>N\<close> variant slots, every slot ready or failed and none
  loading.
\<close>

theorem C2_generate_settles:
  assumes idle: "pending st = Idle"
    and valid: "uploadedImages st \<noteq> [] \<or> modelDescription st \<noteq> []"
    and quiet: "\<forall>e \<in> set evs. run_event e"
    and run: "exec (ClickGenerate # evs) st = Some st'"
  shows "(isLoading st' \<longleftrightarrow> pending st' \<noteq> Idle) \<and>
         (pending st' = Idle \<or> pending st' = AwaitVariants [] \<longrightarrow>
            (\<exists>rp. BaseSettles rp \<in> set evs \<and>
               (\<forall>img. generateBaseImage rp = Inr img \<longrightarrow>
                  (\<forall>i \<in> {1..variant_count (isLookbookMode st)}.
                      \<exists>outcome. VariantSettles i outcome \<in> set evs) \<and>
                  length (generatedImages st') = 1 + variant_count (isLookbookMode st) \<and>
                  generatedImages st' ! 0 = Some img \<and>
                  (\<forall>x \<in> set (generatedImages st').
                      (slot_ready x \<or> slot_failed x) \<and> \<not> slot_loading x))))"
proof -
  let ?L = "isLookbookMode st"
  let ?xs = "generatedImages st'"
  from run idle have r: "exec evs (handleGenerate_start st) = Some st'" by simp
  have "run_inv ?L ({} \<union> set evs) st'"
    by (rule run_inv_exec [OF run_inv_start [OF idle valid] quiet r])
  then have inv: "run_inv ?L (set evs) st'" by simp
  have ready: "slot_ready (Some img)" if "generateBaseImage rp = Inr img" for rp img
    using data_prefix_ready [OF generateBaseImage_prefix [OF that]] by simp
  have first: "isLoading st' \<longleftrightarrow> pending st' \<noteq> Idle"
    using inv by (cases "pending st'") (simp_all add: run_inv_def)
  have second: "\<exists>rp. BaseSettles rp \<in> set evs \<and>
               (\<forall>img. generateBaseImage rp = Inr img \<longrightarrow>
                  (\<forall>i \<in> {1..variant_count ?L}. \<exists>outcome. VariantSettles i outcome \<in> set evs) \<and>
                  length ?xs = 1 + variant_count ?L \<and> ?xs ! 0 = Some img \<and>
                  (\<forall>x \<in> set ?xs. (slot_ready x \<or> slot_failed x) \<and> \<not> slot_loading x))"
    if p: "pending st' = Idle \<or> pending st' = AwaitVariants []"
    using p
  proof
    assume i: "pending st' = Idle"
    with inv obtain rp where b: "one_base (set evs) rp"
      and c: "case generateBaseImage rp of
                Inl m \<Rightarrow> ?xs = []
              | Inr img \<Rightarrow>
                  if ?L then length ?xs = 4 \<and> ?xs ! 0 = Some img \<and>
                            (\<forall>i \<in> {1, 2, 3}. settled_slot (set evs) ?xs i)
                  else ?xs = [Some img]"
      by (auto simp: run_inv_def)
    have "(\<forall>i \<in> {1..variant_count ?L}. \<exists>outcome. VariantSettles i outcome \<in> set evs) \<and>
          length ?xs = 1 + variant_count ?L \<and> ?xs ! 0 = Some img \<and>
          (\<forall>x \<in> set ?xs. (slot_ready x \<or> slot_failed x) \<and> \<not> slot_loading x)"
      if ok: "generateBaseImage rp = Inr img" for img
    proof (cases ?L)
      case True
      with c ok have len: "length ?xs = 4" and x0: "?xs ! 0 = Some img"
        and rest: "\<forall>i \<in> {1, 2, 3}. settled_slot (set evs) ?xs i"
        by simp_all
      have n: "variant_count ?L = 3" using True by (simp add: variant_count_def)
      from settled_slots [OF len x0 ready [OF ok] rest] settled_events [OF rest] len x0
      show ?thesis unfolding n by simp
    next
      case False
      with c ok have "?xs = [Some img]" by simp
      moreover have "variant_count ?L = 0" using False by (simp add: variant_count_def)
      ultimately show ?thesis
        using ready [OF ok] ready_not_loading [of "Some img"] by simp
    qed
    moreover have "BaseSettles rp \<in> set evs" using b by (simp add: one_base_def)
    ultimately show ?thesis by blast
  next
    assume j: "pending st' = AwaitVariants []"
    with inv obtain rp img where L: ?L and len: "length ?xs = 4"
      and b: "one_base (set evs) rp" and ok: "generateBaseImage rp = Inr img"
      and x0: "?xs ! 0 = Some img"
      and rest: "\<forall>i \<in> {1, 2, 3}. settled_slot (set evs) ?xs i"
      by (auto simp: run_inv_def)
    have n: "variant_count ?L = 3" using L by (simp add: variant_count_def)
    have mem: "BaseSettles rp \<in> set evs" using b by (simp add: one_base_def)
    have "(\<forall>i \<in> {1..variant_count ?L}. \<exists>outcome. VariantSettles i outcome \<in> set evs) \<and>
          length ?xs = 1 + variant_count ?L \<and> ?xs ! 0 = Some img' \<and>
          (\<forall>x \<in> set ?xs. (slot_ready x \<or> slot_failed x) \<and> \<not> slot_loading x)"
      if ok': "generateBaseImage rp = Inr img'" for img'
    proof -
      from ok ok' have "img' = img" by simp
      with settled_slots [OF len x0 ready [OF ok] rest] settled_events [OF rest] len x0
      show ?thesis unfolding n by simp
    qed
    with mem show ?thesis by blast
  qed
  from first second show ?thesis by blast
qed

lemma interleaved_run_result:
  "map_option pending (exec (ClickGenerate # interleaved_run) lookbook_state) = Some Idle"
  "map_option generatedImages (exec (ClickGenerate # interleaved_run) lookbook_state) =
     Some [Some ''data:image/jpeg;base64,QUJD'', Some ''data:image/png;base64,QUJD'',
           Some ''error'', Some ''data:image/png;base64,QUJD'']"
  by code_simp+

lemma interleaved_run_events:
  "list_all run_event interleaved_run"
  "BaseSettles rp \<in> set interleaved_run \<Longrightarrow> rp = sample_image_reply"
  by (auto simp: interleaved_run_def sample_results)


theorem C2_generate_settles_witness:
  "pending lookbook_state = Idle \<and> modelDescription lookbook_state = ''red dress'' \<and>
   list_all run_event interleaved_run \<and>
   (\<exists>st'. exec (ClickGenerate # interleaved_run) lookbook_state = Some st' \<and>
      pending st' = Idle \<and> \<not> isLoading st' \<and>
      length (generatedImages st') = 1 + variant_count (isLookbookMode lookbook_state) \<and>
      generatedImages st' ! 0 = Some ''data:image/jpeg;base64,QUJD'' \<and>
      generatedImages st' =
        [Some ''data:image/jpeg;base64,QUJD'', Some ''data:image/png;base64,QUJD'',
         Some ''error'', Some ''data:image/png;base64,QUJD''])"
proof -
  have v: "uploadedImages lookbook_state \<noteq> [] \<or> modelDescription lookbook_state \<noteq> []"
    by (simp add: sample_state_fields)
  have q: "\<forall>e \<in> set interleaved_run. run_event e"
    using interleaved_run_events(1) by (simp add: list_all_iff)
  from interleaved_run_result obtain s where
    s: "exec (ClickGenerate # interleaved_run) lookbook_state = Some s" and p: "pending s = Idle"
    and g: "generatedImages s =
        [Some ''data:image/jpeg;base64,QUJD'', Some ''data:image/png;base64,QUJD'',
         Some ''error'', Some ''data:image/png;base64,QUJD'']"
    by auto
  note inst = C2_generate_settles [OF sample_state_fields(1) v q s]
  from inst p have l: "\<not> isLoading s" by simp
  from inst p obtain rp where rp: "BaseSettles rp \<in> set interleaved_run"
    and slots: "\<forall>img. generateBaseImage rp = Inr img \<longrightarrow>
        (\<forall>i \<in> {1..variant_count (isLookbookMode lookbook_state)}.
            \<exists>outcome. VariantSettles i outcome \<in> set interleaved_run) \<and>
        length (generatedImages s) = 1 + variant_count (isLookbookMode lookbook_state) \<and>
        generatedImages s ! 0 = Some img \<and>
        (\<forall>x \<in> set (generatedImages s). (slot_ready x \<or> slot_failed x) \<and> \<not> slot_loading x)"
    by blast
  from interleaved_run_events(2) [OF rp] sample_results(1)
  have "generateBaseImage rp = Inr ''data:image/jpeg;base64,QUJD''" by simp
  with slots have "length (generatedImages s) = 1 + variant_count (isLookbookMode lookbook_state)"
    "generatedImages s ! 0 = Some ''data:image/jpeg;base64,QUJD''"
    by blast+
  with s p l g sample_state_fields(1,4) interleaved_run_events(1) show ?thesis by blast
qed

text \<open>
  C2 as stated fails on four settled runs in lookbook mode.  When the base call fails, the
  slot list is empty and \<open>isLoading\<close> is false though no variant call was made.  After a
  reset between the base image and the variants, the variants are written into the emptied
  list and slot 0 is a hole, neither ready nor failed.  After a restore from the history,
  or the success of an edit that was started before the click, between two variants, the
  list of one image is extended by the later variants and slot 1 is a hole.
\<close>

theorem C2_settled_run_with_missing_slots:
  "map_option isLoading (exec base_fails_run lookbook_state) = Some False \<and>
   map_option generatedImages (exec base_fails_run lookbook_state) = Some [] \<and>
   map_option isLoading (exec reset_in_run lookbook_state) = Some False \<and>
   map_option generatedImages (exec reset_in_run lookbook_state) =
     Some [None, Some ''data:image/png;base64,QUJD'', Some ''data:image/png;base64,QUJD'',
           Some ''data:image/png;base64,QUJD''] \<and>
   map_option isLoading (exec restore_in_run lookbook_state) = Some False \<and>
   map_option generatedImages (exec restore_in_run lookbook_state) =
     Some [Some ''data:image/jpeg;base64,QUJD'', None, Some ''data:image/png;base64,QUJD'',
           Some ''data:image/png;base64,QUJD''] \<and>
   map_option isLoading (exec edit_in_run edit_state) = Some False \<and>
   map_option generatedImages (exec edit_in_run edit_state) =
     Some [Some ''data:image/png;base64,REVG'', None, Some ''data:image/png;base64,QUJD'',
           Some ''data:image/png;base64,QUJD''] \<and>
   \<not> slot_ready None \<and> \<not> slot_failed None"
  by code_simp






subsection \<open>A failed base call\<close>

text \<open>
  C3: when the base call fails (the gateway function throws, whatever the cause), the run
  of \<open>handleGenerate\<close> ends with no slot, \<open>isLoading\<close> false and the thrown message as the
  one error; the only call issued is the base call, which is no edit call, and no variant
  settlement can follow.
\<close>

theorem C3_base_failure:
  assumes idle: "pending st = Idle"
    and valid: "uploadedImages st \<noteq> [] \<or> modelDescription st \<noteq> []"
    and match: "reply_for (generateBaseImage_call st) rp"
    and failed: "generateBaseImage rp = Inl m"
  shows "\<exists>st'. exec [ClickGenerate, BaseSettles rp] st = Some st' \<and>
           generatedImages st' = [] \<and> \<not> isLoading st' \<and> error st' = Some m \<and>
           pending st' = Idle \<and>
           calls st' = calls st @ [generateBaseImage_call st] \<and>
           (\<forall>img p f. generateBaseImage_call st \<noteq> EditCall img p f) \<and>
           (\<forall>i outcome. handle (VariantSettles i outcome) st' = None)"
proof -
  let ?st1 = "st\<lparr>error := None, isLoading := True,
                 generatedImages :=
                   (if isLookbookMode st then replicate 4 (Some ''loading'') else [Some ''loading'']),
                 calls := calls st @ [generateBaseImage_call st],
                 pending := AwaitBase (generateBaseImage_call st) (isLookbookMode st)\<rparr>"
  let ?st2 = "?st1\<lparr>error := Some m, generatedImages := [], isLoading := False, pending := Idle\<rparr>"
  have h1: "handle ClickGenerate st = Some ?st1"
    by (rule start_valid [OF idle valid])
  have h2: "handle (BaseSettles rp) ?st1 = Some ?st2"
    using match failed by (simp add: handleGenerate_base_def handleGenerate_finally_def)
  have run: "exec [ClickGenerate, BaseSettles rp] st = Some ?st2"
    by (simp add: h1 h2 del: handle.simps)
  have none: "\<forall>i outcome. handle (VariantSettles i outcome) ?st2 = None"
    by simp
  show ?thesis
    by (intro exI [of _ ?st2] conjI run none) (simp_all add: base_call_not_edit)
qed

theorem C3_base_failure_witness:
  "pending single_state = Idle \<and> modelDescription single_state = ''red dress'' \<and>
   reply_for (generateBaseImage_call single_state) failed_image_reply \<and>
   generateBaseImage failed_image_reply = Inl Msg_no_generated_image \<and>
   (\<exists>st'. exec [ClickGenerate, BaseSettles failed_image_reply] single_state = Some st' \<and>
      generatedImages st' = [] \<and> \<not> isLoading st' \<and> error st' = Some Msg_no_generated_image \<and>
      pending st' = Idle \<and>
      calls st' = [TextCall ''red dress. Phong cach: Chup studio.'' ''3:4''])"
proof -
  have v: "uploadedImages single_state \<noteq> [] \<or> modelDescription single_state \<noteq> []"
    by (simp add: sample_state_fields)
  from C3_base_failure [OF sample_state_fields(12) v sample_match(3) sample_results(2)]
  obtain s where s: "exec [ClickGenerate, BaseSettles failed_image_reply] single_state = Some s"
    "generatedImages s = []" "\<not> isLoading s" "error s = Some Msg_no_generated_image"
    "pending s = Idle" "calls s = calls single_state @ [generateBaseImage_call single_state]"
    by blast
  from s(6) have c: "calls s = [TextCall ''red dress. Phong cach: Chup studio.'' ''3:4'']"
    by (simp add: sample_state_fields sample_calls)
  from s(1-5) c sample_state_fields(12,15) sample_match(3) sample_results(2)
  show ?thesis by blast
qed

subsection \<open>The history\<close>

lemma take_append_take: "take n (xs @ take n ys) = take n (xs @ ys)"
  by (simp add: min_def)

lemma user_update_history: "user_update a st = Some st' \<Longrightarrow> history st' = history st"
  by (cases a) (auto split: if_splits)

lemma sync_description_history: "history (sync_description st) = history st"
  by (simp add: sync_description_def)

lemma handle_history:
  assumes "handle e st = Some st'"
  shows "history st' = take 5 (rev (produced_by e) @ history st) \<or>
         (produced_by e = [] \<and> history st' = history st)"
proof (cases e)
  case (User a)
  with assms show ?thesis
    by (auto simp: sync_description_history user_update_history)
next
  case ClickGenerate
  with assms show ?thesis by (auto simp: handleGenerate_start_def split: if_splits)
next
  case (BaseSettles rp)
  with assms show ?thesis
    by (auto simp: handleGenerate_base_def handleGenerate_finally_def
        split: phase.splits if_splits sum.splits)
next
  case (VariantSettles i outcome)
  with assms show ?thesis
    by (auto simp: variant_settled_def split: phase.splits if_splits)
next
  case VariantsJoined
  with assms show ?thesis
    by (auto simp: handleGenerate_finally_def split: phase.splits if_splits)
next
  case ClickEdit
  with assms show ?thesis
    by (auto simp: handleEdit_start_def split: if_splits option.splits)
next
  case (EditSettles outcome)
  with assms show ?thesis
    by (auto simp: handleEdit_settled_def split: if_splits sum.splits)
qed

lemma handle_history_bounded:
  assumes "handle e st = Some st'" and "length (history st) \<le> 5"
  shows "history st' = take 5 (rev (produced_by e) @ history st)"
  using handle_history [OF assms(1)] assms(2) by auto

text \<open>
  C8: along any sequence of events the history is the list of the images produced by the
  successful base calls and edits, most recent first, cut to five entries: each such result
  is put in front, and the list never has more than five entries.  (The variants of a
  lookbook are not put into the history.)
\<close>

theorem C8_history_bounded_recent_first:
  assumes "exec evs st = Some st'" and "length (history st) \<le> 5"
  shows "history st' = take 5 (rev (produced evs) @ history st) \<and> length (history st') \<le> 5"
  using assms
proof (induction evs arbitrary: st)
  case Nil
  then show ?case by (simp add: produced_def)
next
  case (Cons e evs)
  from Cons.prems obtain s where s: "handle e st = Some s" and r: "exec evs s = Some st'"
    by (auto split: option.splits)
  from handle_history_bounded [OF s Cons.prems(2)]
  have hs: "history s = take 5 (rev (produced_by e) @ history st)" .
  then have "length (history s) \<le> 5" by simp
  from Cons.IH [OF r this] have "history st' = take 5 (rev (produced evs) @ history s)"
    and b: "length (history st') \<le> 5" by simp_all
  then have "history st' = take 5 (rev (produced evs) @ rev (produced_by e) @ history st)"
    unfolding hs by (simp only: take_append_take)
  with b show ?case by (simp add: produced_def)
qed
lemma full_history_fields:
  "pending full_history_state = Idle" "\<not> isLookbookMode full_history_state"
  "modelDescription full_history_state = ''red dress''"
  "generateBaseImage_call full_history_state = generateBaseImage_call single_state"
  "history full_history_state = [''data:5'', ''data:4'', ''data:3'', ''data:2'', ''data:1'']"
  by (simp_all add: full_history_state_def sample_state_fields generateBaseImage_call_def
      fullPrompt_def uploadedImages_def)

theorem C8_history_bounded_recent_first_witness:
  "length (history full_history_state) \<le> 5 \<and>
   (\<exists>st'. exec (single_run sample_image_reply) full_history_state = Some st' \<and>
      history st' = [''data:image/jpeg;base64,QUJD'', ''data:5'', ''data:4'', ''data:3'', ''data:2''] \<and>
      length (history st') \<le> 5)"
proof -
  have len: "length (history full_history_state) \<le> 5" by (simp add: full_history_fields)
  have v: "uploadedImages full_history_state \<noteq> [] \<or> modelDescription full_history_state \<noteq> []"
    by (simp add: full_history_fields)
  have m: "reply_for (generateBaseImage_call full_history_state) sample_image_reply"
    by (simp add: full_history_fields sample_match)
  from single_run_exec(1) [OF full_history_fields(1) v m sample_results(1) full_history_fields(2)]
  obtain s where s: "exec (single_run sample_image_reply) full_history_state = Some s" by blast
  have p: "produced (single_run sample_image_reply) = [''data:image/jpeg;base64,QUJD'']"
    by (simp add: produced_def single_run_def sample_results)
  from C8_history_bounded_recent_first [OF s len]
  have "history s = [''data:image/jpeg;base64,QUJD'', ''data:5'', ''data:4'', ''data:3'', ''data:2'']"
    and "length (history s) \<le> 5"
    by (simp_all add: p full_history_fields)
  with s len show ?thesis by blast
qed

subsection \<open>handleEdit\<close>














end
